theory Spec2Isabelle
  imports Main "HOL-Library.AList" "HOL-Library.List_Lexorder"
begin

section \<open>Errors\<close>

text \<open>
  Every \<^verbatim>\<open>throw new Error(...)\<close> of the two source files is one constructor; a function
  that can throw returns \<open>error + 'a\<close> with \<open>Inl\<close> for the exception. An exception is
  never caught inside the generator, so the first one ends the whole generation.
\<close>

datatype NameUsage = Declaration | Import

datatype error =
    Duplicate NameUsage string
  | NotDeclared
  | NotYetResolved string
  | ImportNotNamed string
  | ValueViaTypeImport string
  | NoMetadataField string
  | ExpectedMetadataReference string
  | ResourceNotAllowed

fun usage_text :: "NameUsage \<Rightarrow> string" where
  "usage_text Declaration = ''declaration''"
| "usage_text Import = ''import''"

text \<open>The message each error carries in the source.\<close>

fun message :: "error \<Rightarrow> string" where
  "message (Duplicate u t) = ''Duplicate '' @ usage_text u @ '' of '' @ t"
| "message NotDeclared = ''name undefined not declared in module''"
| "message (NotYetResolved d) = ''Name '' @ d @ '' not yet resolved''"
| "message (ImportNotNamed m) = ''import of '' @ m @ '' not yet named''"
| "message (ValueViaTypeImport m) = ''cannot import value '' @ m @ '' via `import type`''"
| "message (NoMetadataField n) = ''Resource '' @ n @ '' has no metadata field''"
| "message (ExpectedMetadataReference n) = n @ '': expected metadata reference property''"
| "message ResourceNotAllowed = [CHR 0x22] @ ''resource'' @ [CHR 0x22] @ '' type not allowed in gen.type()''"

section \<open>Identifier table: classes Name and Names\<close>

text \<open>
  A \<^verbatim>\<open>Name\<close> object is shared: the array of its group holds it, the \<^verbatim>\<open>Import\<close> that
  registered it holds it, and every binding closes over it. The model keeps the objects in
  a store (a list, the address of an object is its index, \<^verbatim>\<open>new Name\<close> appends) and the
  \<^verbatim>\<open>Map<string, Name[]>\<close> as an association list in insertion order whose groups hold
  addresses.
\<close>

record Name =
  declared :: string
  usage :: NameUsage
  resolved :: "string option"

record Names =
  store :: "Name list"
  bound :: "(string \<times> nat list) list"

definition Names_empty :: Names where
  "Names_empty = \<lparr>store = [], bound = []\<rparr>"

text \<open>The static table \<^verbatim>\<open>Name.usages\<close> and the getter \<^verbatim>\<open>weight\<close> that reads it.\<close>

fun usages :: "NameUsage \<Rightarrow> nat" where
  "usages Declaration = 0"
| "usages Import = 1"

definition weight :: "Name \<Rightarrow> nat" where
  "weight n = usages (usage n)"

definition isConflict :: "Name \<Rightarrow> NameUsage \<Rightarrow> bool" where
  "isConflict n u \<longleftrightarrow> usage n = Declaration \<and> u = Declaration"

definition Name_resolve :: "string option \<Rightarrow> Name \<Rightarrow> Name" where
  "Name_resolve as n = n\<lparr>resolved := Some (case as of None \<Rightarrow> declared n | Some s \<Rightarrow> s)\<rparr>"

definition Name_token :: "Name \<Rightarrow> error + string" where
  "Name_token n = (case resolved n of None \<Rightarrow> Inl (NotYetResolved (declared n)) | Some s \<Rightarrow> Inr s)"

text \<open>The private \<^verbatim>\<open>Names.token\<close>: the group of a raw name, created empty when absent.\<close>

definition Names_token :: "string \<Rightarrow> Names \<Rightarrow> nat list \<times> Names" where
  "Names_token name ns =
     (case map_of (bound ns) name of
        None \<Rightarrow> ([], ns\<lparr>bound := bound ns @ [(name, [])]\<rparr>)
      | Some names \<Rightarrow> (names, ns))"

definition Names_add :: "string \<Rightarrow> NameUsage \<Rightarrow> Names \<Rightarrow> error + (nat \<times> Names)" where
  "Names_add token u ns =
     (case Names_token token ns of (names, ns1) \<Rightarrow>
        if list_ex (\<lambda>a. isConflict (store ns1 ! a) u) names then Inl (Duplicate u token)
        else Inr (length (store ns1),
                  ns1\<lparr>store := store ns1 @ [\<lparr>declared = token, usage = u, resolved = None\<rparr>],
                      bound := AList.update token (names @ [length (store ns1)]) (bound ns1)\<rparr>))"

definition Names_getDeclared :: "string \<Rightarrow> Names \<Rightarrow> error + Name" where
  "Names_getDeclared token ns =
     (case map_of (bound ns) token of
        None \<Rightarrow> Inl NotDeclared
      | Some names \<Rightarrow>
          (case find (\<lambda>a. usage (store ns ! a) = Declaration) names of
             None \<Rightarrow> Inl NotDeclared
           | Some a \<Rightarrow> Inr (store ns ! a)))"

text \<open>The decimal text of an array index, as a template literal prints it.\<close>

fun show_nat :: "nat \<Rightarrow> string" where
  "show_nat n =
     (if n < 10 then [char_of (48 + n)]
      else show_nat (n div 10) @ [char_of (48 + n mod 10)])"

declare show_nat.simps [simp del]

text \<open>The argument of \<^verbatim>\<open>name.resolve\<close> for the entry at index \<open>i\<close> of a group.\<close>

definition suffixed :: "string \<Rightarrow> nat \<Rightarrow> string option" where
  "suffixed identifier i =
     (if i = 0 then None
      else if i = 1 then Some (identifier @ ''_'')
      else Some (identifier @ ''_'' @ show_nat i))"

text \<open>The inner loop of \<^verbatim>\<open>Names.resolve\<close> over \<^verbatim>\<open>names.entries()\<close>, from index \<open>i\<close>.\<close>

fun resolve_entries :: "string \<Rightarrow> nat \<Rightarrow> nat list \<Rightarrow> Name list \<Rightarrow> Name list" where
  "resolve_entries identifier i [] st = st"
| "resolve_entries identifier i (a # names) st =
     resolve_entries identifier (Suc i) names
       (st[a := Name_resolve (suffixed identifier i) (st ! a)])"

text \<open>
  The outer loop over the map. \<^verbatim>\<open>Array.prototype.sort\<close> is stable and sorts in place, so
  the group is stored back sorted; \<open>sort_key\<close> is a stable insertion sort.
\<close>

fun resolve_groups ::
  "(string \<times> nat list) list \<Rightarrow> Name list \<Rightarrow> (string \<times> nat list) list \<times> Name list" where
  "resolve_groups [] st = ([], st)"
| "resolve_groups ((identifier, names) # rest) st =
     (let sorted = sort_key (\<lambda>a. weight (st ! a)) names;
          st1 = resolve_entries identifier 0 sorted st
      in case resolve_groups rest st1 of
           (rest', st2) \<Rightarrow> ((identifier, sorted) # rest', st2))"

definition Names_resolve :: "Names \<Rightarrow> Names" where
  "Names_resolve ns =
     (case resolve_groups (bound ns) (store ns) of
        (b, st) \<Rightarrow> ns\<lparr>store := st, bound := b\<rparr>)"

text \<open>A sequence of calls of \<^verbatim>\<open>Names.add\<close>; the first exception ends it.\<close>

fun register_all :: "(string \<times> NameUsage) list \<Rightarrow> Names \<Rightarrow> error + Names" where
  "register_all [] ns = Inr ns"
| "register_all ((t, u) # rs) ns =
     (case Names_add t u ns of
        Inl e \<Rightarrow> Inl e
      | Inr (a, ns') \<Rightarrow> register_all rs ns')"

text \<open>The spelling a name at address \<open>a\<close> has, once resolved.\<close>

definition spelling :: "Names \<Rightarrow> nat \<Rightarrow> string option" where
  "spelling ns a = resolved (store ns ! a)"

section \<open>Strings of the host language\<close>

text \<open>
  A \<open>string\<close> is the list of the UTF-16 code units of a JavaScript string, for code units
  below 256. \<open>join\<close> is \<^verbatim>\<open>Array.prototype.join\<close>; a value is "truthy" as an optional
  string when it is present and not empty.
\<close>

fun join :: "string \<Rightarrow> string list \<Rightarrow> string" where
  "join sep [] = []"
| "join sep [x] = x"
| "join sep (x # y # ys) = x @ sep @ join sep (y # ys)"

fun truthy :: "string option \<Rightarrow> bool" where
  "truthy None = False"
| "truthy (Some s) = (s \<noteq> [])"

definition hex_digit :: "nat \<Rightarrow> char" where
  "hex_digit n = (if n < 10 then char_of (48 + n) else char_of (87 + n))"

text \<open>\<^verbatim>\<open>JSON.stringify\<close> of a string (QuoteJSONString of ECMA-262), on code units below 256.\<close>

definition json_char :: "char \<Rightarrow> string" where
  "json_char c =
     (if c = CHR 0x08 then [CHR 0x5C, CHR ''b'']
      else if c = CHR 0x09 then [CHR 0x5C, CHR ''t'']
      else if c = CHR 0x0A then [CHR 0x5C, CHR ''n'']
      else if c = CHR 0x0C then [CHR 0x5C, CHR ''f'']
      else if c = CHR 0x0D then [CHR 0x5C, CHR ''r'']
      else if c = CHR 0x22 then [CHR 0x5C, CHR 0x22]
      else if c = CHR 0x5C then [CHR 0x5C, CHR 0x5C]
      else if (of_char c :: nat) < 32
        then [CHR 0x5C, CHR ''u'', CHR ''0'', CHR ''0'',
              hex_digit ((of_char c :: nat) div 16), hex_digit ((of_char c :: nat) mod 16)]
      else [c])"

definition JSON_stringify :: "string \<Rightarrow> string" where
  "JSON_stringify s = [CHR 0x22] @ concat (map json_char s) @ [CHR 0x22]"

section \<open>Import table: classes Import and Imports\<close>

text \<open>
  An \<^verbatim>\<open>ImportSource\<close> is a tagged tuple; the optional third component of a remote source
  is \<open>None\<close> when the tuple has two elements.
\<close>

datatype ImportSource =
    Api string "string option"
  | Lib string "string option"
  | Local string

text \<open>\<^verbatim>\<open>ImportOptions = Partial<Pick<Import, "as" | "type">>\<close>: each field may be absent.\<close>

record ImportOptions =
  opt_as :: "string option"
  opt_type :: "bool option"

record Import =
  member :: string
  as :: "string option"
  type :: bool
  name :: "nat option"

record ImportedModule =
  src :: ImportSource
  members :: "(string \<times> Import) list"

record Imports =
  modules :: "(string \<times> ImportedModule) list"

definition Imports_empty :: Imports where
  "Imports_empty = \<lparr>modules = []\<rparr>"

text \<open>The constructor of \<^verbatim>\<open>Import\<close>.\<close>

definition Import_new :: "string \<Rightarrow> ImportOptions option \<Rightarrow> Import" where
  "Import_new m options =
     \<lparr>member = m,
      as = (case options of None \<Rightarrow> None
            | Some opts \<Rightarrow> if truthy (opt_as opts) then opt_as opts else None),
      type = (case options of None \<Rightarrow> False
              | Some opts \<Rightarrow> (case opt_type opts of None \<Rightarrow> False | Some b \<Rightarrow> b)),
      name = None\<rparr>"

fun Import_urn :: "ImportSource \<Rightarrow> string" where
  "Import_urn (Api n p) = join '':'' ([''kure'', ''api'', n] @ (case p of None \<Rightarrow> [] | Some q \<Rightarrow> [q]))"
| "Import_urn (Lib n p) = join '':'' ([''kure'', ''lib'', n] @ (case p of None \<Rightarrow> [] | Some q \<Rightarrow> [q]))"
| "Import_urn (Local p) = ''/'' @ p"

text \<open>The private \<^verbatim>\<open>Imports.module\<close>: the entry of a source, created with no members when absent.\<close>

definition Imports_module :: "ImportSource \<Rightarrow> Imports \<Rightarrow> ImportedModule \<times> Imports" where
  "Imports_module s imps =
     (case map_of (modules imps) (Import_urn s) of
        None \<Rightarrow> (\<lparr>src = s, members = []\<rparr>,
                 imps\<lparr>modules := modules imps @ [(Import_urn s, \<lparr>src = s, members = []\<rparr>)]\<rparr>)
      | Some md \<Rightarrow> (md, imps))"

text \<open>The merge of the options of a later \<^verbatim>\<open>use\<close> into the existing import.\<close>

definition merge_options :: "ImportOptions \<Rightarrow> Import \<Rightarrow> Import" where
  "merge_options opts m =
     (let m1 = (if type m \<and> \<not> (opt_type opts = Some True) then m\<lparr>type := False\<rparr> else m)
      in if \<not> truthy (as m1) \<and> truthy (opt_as opts) then m1\<lparr>as := opt_as opts\<rparr> else m1)"

text \<open>
  \<^verbatim>\<open>Imports.use\<close>. The \<^verbatim>\<open>Import\<close> object it returns stays in the table under its key
  (the URN of the source and the member), which the model returns in its place.
\<close>

definition Imports_use ::
  "ImportSource \<Rightarrow> string \<Rightarrow> ImportOptions option \<Rightarrow> Imports \<Rightarrow> (string \<times> string) \<times> Imports" where
  "Imports_use s nm options imps =
     (case Imports_module s imps of (md, imps1) \<Rightarrow>
        let m' = (case map_of (members md) nm of
                    None \<Rightarrow> Import_new nm options
                  | Some m \<Rightarrow> (case options of None \<Rightarrow> m | Some opts \<Rightarrow> merge_options opts m))
        in ((Import_urn s, nm),
            imps1\<lparr>modules :=
              AList.update (Import_urn s)
                (md\<lparr>members := AList.update nm m' (members md)\<rparr>) (modules imps1)\<rparr>))"

text \<open>The import a key stands for.\<close>

definition Imports_get :: "Imports \<Rightarrow> string \<times> string \<Rightarrow> Import option" where
  "Imports_get imps key =
     (case map_of (modules imps) (fst key) of
        None \<Rightarrow> None
      | Some md \<Rightarrow> map_of (members md) (snd key))"

section \<open>Module\<close>

text \<open>
  The state of a \<^verbatim>\<open>Module\<close>: its path and its two tables (the field \<^verbatim>\<open>imports\<close> is
  written \<open>imports'\<close>). The member list holds closures over the module, so it is passed
  beside the state (see \<open>Module_render\<close>).
\<close>

record Module =
  path :: string
  names :: Names
  imports' :: Imports

definition Module_new :: "string \<Rightarrow> Module" where
  "Module_new p = \<lparr>path = p, names = Names_empty, imports' = Imports_empty\<rparr>"

text \<open>
  A \<^verbatim>\<open>Binding\<close> is a closure over a \<^verbatim>\<open>Name\<close> or an \<^verbatim>\<open>Import\<close> that reads the object when
  it is called; in the model it reads the module state it is given.
\<close>

type_synonym Binding = "Module \<Rightarrow> error + string"

definition Name_binding :: "nat \<Rightarrow> Binding" where
  "Name_binding a m = Name_token (store (names m) ! a)"

definition Import_token :: "Import \<Rightarrow> Names \<Rightarrow> error + string" where
  "Import_token imp ns =
     (case name imp of
        None \<Rightarrow> Inl (ImportNotNamed (member imp))
      | Some a \<Rightarrow> Name_token (store ns ! a))"

definition Import_binding :: "string \<times> string \<Rightarrow> Binding" where
  "Import_binding key m =
     (case Imports_get (imports' m) key of
        None \<Rightarrow> Inl (ImportNotNamed (snd key))
      | Some imp \<Rightarrow> Import_token imp (names m))"

definition Module_name :: "string \<Rightarrow> NameUsage \<Rightarrow> Module \<Rightarrow> error + (Binding \<times> Module)" where
  "Module_name nm u m =
     (case Names_add nm u (names m) of
        Inl e \<Rightarrow> Inl e
      | Inr (a, ns) \<Rightarrow> Inr (Name_binding a, m\<lparr>names := ns\<rparr>))"

definition Module_get :: "string \<Rightarrow> Binding" where
  "Module_get nm m =
     (case Names_getDeclared nm (names m) of
        Inl e \<Rightarrow> Inl e
      | Inr n \<Rightarrow> Name_token n)"

definition Module_import ::
  "ImportSource \<Rightarrow> string \<Rightarrow> ImportOptions option \<Rightarrow> Module \<Rightarrow> Binding \<times> Module" where
  "Module_import s nm options m =
     (case Imports_use s nm options (imports' m) of
        (key, imps) \<Rightarrow> (Import_binding key, m\<lparr>imports' := imps\<rparr>))"

text \<open>The raw identifier an import registers: \<^verbatim>\<open>this.as ?? this.member\<close>.\<close>

definition raw_name :: "Import \<Rightarrow> string" where
  "raw_name imp = (case as imp of None \<Rightarrow> member imp | Some a \<Rightarrow> a)"

text \<open>\<^verbatim>\<open>Import.apply\<close> over every member of every imported module, in map order.\<close>

fun apply_members ::
  "(string \<times> Import) list \<Rightarrow> Names \<Rightarrow> error + ((string \<times> Import) list \<times> Names)" where
  "apply_members [] ns = Inr ([], ns)"
| "apply_members ((k, imp) # rest) ns =
     (case Names_add (raw_name imp) Import ns of
        Inl e \<Rightarrow> Inl e
      | Inr (a, ns1) \<Rightarrow>
          (case apply_members rest ns1 of
             Inl e \<Rightarrow> Inl e
           | Inr (rest', ns2) \<Rightarrow> Inr ((k, imp\<lparr>name := Some a\<rparr>) # rest', ns2)))"

fun apply_modules ::
  "(string \<times> ImportedModule) list \<Rightarrow> Names \<Rightarrow>
   error + ((string \<times> ImportedModule) list \<times> Names)" where
  "apply_modules [] ns = Inr ([], ns)"
| "apply_modules ((urn, md) # rest) ns =
     (case apply_members (members md) ns of
        Inl e \<Rightarrow> Inl e
      | Inr (ms, ns1) \<Rightarrow>
          (case apply_modules rest ns1 of
             Inl e \<Rightarrow> Inl e
           | Inr (rest', ns2) \<Rightarrow> Inr ((urn, md\<lparr>members := ms\<rparr>) # rest', ns2)))"

definition Imports_apply :: "Module \<Rightarrow> error + Module" where
  "Imports_apply m =
     (case apply_modules (modules (imports' m)) (names m) of
        Inl e \<Rightarrow> Inl e
      | Inr (mods, ns) \<Rightarrow> Inr (m\<lparr>names := ns, imports' := \<lparr>modules = mods\<rparr>\<rparr>))"

text \<open>
  A sequence of calls of \<^verbatim>\<open>Module.import\<close>, and the two steps of \<^verbatim>\<open>Module.render\<close> that
  follow the members' apply pass: the apply of the import table, then \<^verbatim>\<open>names.resolve()\<close>.
\<close>

fun import_all :: "(ImportSource \<times> string \<times> ImportOptions option) list \<Rightarrow> Module \<Rightarrow> Module" where
  "import_all [] m = m"
| "import_all ((s, nm, options) # rest) m = import_all rest (snd (Module_import s nm options m))"

definition resolve_imports :: "Module \<Rightarrow> error + Module" where
  "resolve_imports m =
     (case Imports_apply m of
        Inl e \<Rightarrow> Inl e
      | Inr m' \<Rightarrow> Inr (m'\<lparr>names := Names_resolve (names m')\<rparr>))"

text \<open>
  The imports of a table with their keys, in the order in which \<^verbatim>\<open>Imports.apply\<close> visits
  them: the imported modules in map order, the members of each in map order.
\<close>

definition table_imports :: "Imports \<Rightarrow> ((string \<times> string) \<times> Import) list" where
  "table_imports imps =
     concat (map (\<lambda>(urn, md). map (\<lambda>(k, imp). ((urn, k), imp)) (members md)) (modules imps))"


section \<open>Schema model\<close>

text \<open>
  Modelled from the spec: the schema types that \<^verbatim>\<open>https://kure.sh/lib/spec@0.1/mod.ts\<close>
  declares (only the import of the types is in the source). The fields are the ones the
  generator reads; an optional field is an \<open>option\<close>. Where a field name of the source is
  taken (\<^verbatim>\<open>name\<close>, \<^verbatim>\<open>module\<close>, \<^verbatim>\<open>version\<close>, \<^verbatim>\<open>group\<close>, \<^verbatim>\<open>value\<close>, \<^verbatim>\<open>package\<close> of a scope), it
  carries the name of its type as a prefix.
\<close>

record APIGroupIdentifier =
  group_name :: "string option"
  group_module :: "string option"

record APIDependency =
  package :: string
  dep_version :: string

record TypeScope =
  scope_group :: APIGroupIdentifier
  scope_version :: string
  scope_package :: "string option"

record TypeReference =
  target_scope :: "TypeScope option"
  target_name :: string

record DefinitionMeta =
  description :: "string option"
  deprecated :: bool

datatype Type =
    StringType "string list option"
  | IntegerType
  | FloatType
  | BooleanType
  | ArrayType Type
  | MapType Type
  | ObjectType "Property list" "TypeReference list option"
  | UnionType "Type list"
  | OptionalType Type
  | ReferenceType TypeReference
  | ResourceType "Property list" string
  | UnknownType
and Property =
    Property (p_name: string) (required: bool) (p_value: Type) (p_meta: DefinitionMeta)

record Definition = DefinitionMeta +
  d_name :: string
  d_value :: Type

record APIGroupVersion =
  schema_group :: APIGroupIdentifier
  schema_version :: string
  schema_dependencies :: "APIDependency list"
  definitions :: "Definition list"

section \<open>Context\<close>

datatype Engine = Deno | Node

record Context =
  group :: APIGroupIdentifier
  version :: string
  dependencies :: "(string \<times> APIDependency) list"
  module :: Module
  engine :: Engine

text \<open>The constructor: \<^verbatim>\<open>new Map(entries)\<close> sets the entries in order.\<close>

definition Context_new :: "APIGroupVersion \<Rightarrow> Module \<Rightarrow> Engine \<Rightarrow> Context" where
  "Context_new schema m e =
     \<lparr>group = schema_group schema,
      version = schema_version schema,
      dependencies = fold (\<lambda>dep. AList.update (package dep) dep) (schema_dependencies schema) [],
      module = m,
      engine = e\<rparr>"

definition Context_apiVersion :: "Context \<Rightarrow> string" where
  "Context_apiVersion ctx =
     (case group_name (group ctx) of
        None \<Rightarrow> version ctx
      | Some g \<Rightarrow> if g \<noteq> [] then g @ ''/'' @ version ctx else version ctx)"

section \<open>Functions of the host\<close>

text \<open>
  \<^verbatim>\<open>String.prototype.localeCompare\<close> (the collation of the default locale) and the POSIX
  path functions of the Deno standard library are not part of the repository: they are
  parameters of the model.
\<close>

record Host =
  localeCompare :: "string \<Rightarrow> string \<Rightarrow> int"
  dirname :: "string \<Rightarrow> string"
  basename :: "string \<Rightarrow> string"
  relative :: "string \<Rightarrow> string \<Rightarrow> string"

text \<open>
  \<^verbatim>\<open>Array.prototype.sort\<close> with a comparator is a stable sort; for a consistent comparator
  every stable sort returns the list of this insertion sort.
\<close>

fun insert_by :: "('a \<Rightarrow> 'a \<Rightarrow> int) \<Rightarrow> 'a \<Rightarrow> 'a list \<Rightarrow> 'a list" where
  "insert_by cmp x [] = [x]"
| "insert_by cmp x (y # ys) = (if cmp x y \<le> 0 then x # y # ys else y # insert_by cmp x ys)"

definition sort_by :: "('a \<Rightarrow> 'a \<Rightarrow> int) \<Rightarrow> 'a list \<Rightarrow> 'a list" where
  "sort_by cmp xs = foldr (insert_by cmp) xs []"

text \<open>\<^verbatim>\<open>xs.map(f)\<close> for an \<open>f\<close> that may throw: the first exception ends the map.\<close>

fun traverse :: "('a \<Rightarrow> error + 'b) \<Rightarrow> 'a list \<Rightarrow> error + 'b list" where
  "traverse f [] = Inr []"
| "traverse f (x # xs) =
     (case f x of
        Inl e \<Rightarrow> Inl e
      | Inr y \<Rightarrow> (case traverse f xs of Inl e \<Rightarrow> Inl e | Inr ys \<Rightarrow> Inr (y # ys)))"

definition ebind :: "error + 'a \<Rightarrow> ('a \<Rightarrow> error + 'b) \<Rightarrow> error + 'b" where
  "ebind x f = (case x of Inl e \<Rightarrow> Inl e | Inr a \<Rightarrow> f a)"

section \<open>Import paths and the import block\<close>

fun is_local :: "ImportSource \<Rightarrow> bool" where
  "is_local (Local p) = True"
| "is_local s = False"

definition replace_slashes :: "string \<Rightarrow> string" where
  "replace_slashes s = map (\<lambda>c. if c = CHR ''/'' then CHR ''-'' else c) s"

text \<open>The remote branch of \<^verbatim>\<open>Imports.path\<close>, for the tuple \<^verbatim>\<open>[type, pkg, path]\<close>.\<close>

definition remote_path :: "string \<Rightarrow> string \<Rightarrow> string option \<Rightarrow> Context \<Rightarrow> string" where
  "remote_path ty pkg p ctx =
     (case engine ctx of
        Deno \<Rightarrow>
          (let ver = (if ty = ''api''
                      then map_option dep_version (map_of (dependencies ctx) pkg)
                      else Some ''0.1'');
               pkg' = (if pkg = ''kubernetes'' \<and> truthy ver then [] else pkg);
               tgt = pkg' @ (case ver of None \<Rightarrow> [] | Some v \<Rightarrow> if v \<noteq> [] then ''@'' @ v else [])
           in ''https://kure.sh/'' @ ty @ ''/'' @ tgt @ ''/'' @
              (case p of None \<Rightarrow> ''mod.ts'' | Some q \<Rightarrow> if q \<noteq> [] then q else ''mod.ts''))
      | Node \<Rightarrow>
          ''@kure-'' @ ty @ ''/'' @ replace_slashes pkg @
          (case p of None \<Rightarrow> [] | Some q \<Rightarrow> if q \<noteq> [] then ''/'' @ q else []))"

text \<open>
  \<^verbatim>\<open>Imports.path\<close>. The final \<^verbatim>\<open>throw new Error("unreachable")\<close> needs an engine that is
  neither of the two of the type \<^verbatim>\<open>Engine\<close>, so the function returns a string.
\<close>

fun Imports_path :: "Host \<Rightarrow> ImportSource \<Rightarrow> Context \<Rightarrow> string" where
  "Imports_path h (Local p) ctx =
     (let local = ''/src/'' @ dirname h (path (module ctx));
          dest = ''/src/'' @ p;
          dir0 = relative h local (dirname h dest);
          dir1 = (if dir0 = [] then ''.'' else dir0);
          dir = (if take 1 dir1 = ''.'' then dir1 else ''./'' @ dir1)
      in dir @ ''/'' @ basename h dest)"
| "Imports_path h (Api pkg p) ctx = remote_path ''api'' pkg p ctx"
| "Imports_path h (Lib pkg p) ctx = remote_path ''lib'' pkg p ctx"

text \<open>\<^verbatim>\<open>Import.render\<close>; the \<^verbatim>\<open>Name\<close> of the import is read in the identifier table given.\<close>

definition Import_render :: "bool \<Rightarrow> Names \<Rightarrow> Import \<Rightarrow> error + string" where
  "Import_render inTypeImport ns imp =
     (if inTypeImport \<and> \<not> type imp then Inl (ValueViaTypeImport (member imp))
      else ebind (Import_token imp ns) (\<lambda>nm.
        Inr ((if type imp \<and> \<not> inTypeImport then ''type '' else []) @
             (if nm \<noteq> member imp then member imp @ '' as '' @ nm else nm))))"

text \<open>
  The locals of \<^verbatim>\<open>Imports.render\<close>. \<open>paths_get\<close> and \<open>modules_get\<close> are the lookups
  \<^verbatim>\<open>paths.get(urn)!\<close> and \<^verbatim>\<open>this.modules.get(urn)!\<close>, whose keys are keys of the map.
\<close>

definition paths_get :: "(string \<times> string) list \<Rightarrow> string \<Rightarrow> string" where
  "paths_get ps urn = (case map_of ps urn of None \<Rightarrow> [] | Some p \<Rightarrow> p)"

definition modules_get :: "Imports \<Rightarrow> string \<Rightarrow> Import list" where
  "modules_get imps urn =
     (case map_of (modules imps) urn of None \<Rightarrow> [] | Some md \<Rightarrow> map snd (members md))"

definition render_paths :: "Host \<Rightarrow> Context \<Rightarrow> Imports \<Rightarrow> (string \<times> string) list" where
  "render_paths h ctx imps = map (\<lambda>(urn, md). (urn, Imports_path h (src md) ctx)) (modules imps)"

definition render_remote :: "Imports \<Rightarrow> string list" where
  "render_remote imps = map fst (filter (\<lambda>(urn, md). \<not> is_local (src md)) (modules imps))"

definition render_local :: "Imports \<Rightarrow> string list" where
  "render_local imps = map fst (filter (\<lambda>(urn, md). is_local (src md)) (modules imps))"

definition render_groups :: "Host \<Rightarrow> Context \<Rightarrow> Imports \<Rightarrow> string list list" where
  "render_groups h ctx imps =
     map (sort_by (\<lambda>a b. localeCompare h (paths_get (render_paths h ctx imps) a)
                                        (paths_get (render_paths h ctx imps) b)))
         (filter (\<lambda>g. g \<noteq> []) [render_remote imps, render_local imps])"

definition sorted_members :: "Host \<Rightarrow> Imports \<Rightarrow> string \<Rightarrow> Import list" where
  "sorted_members h imps urn =
     sort_by (\<lambda>a b. localeCompare h (member a) (member b)) (modules_get imps urn)"

definition renderImport :: "Host \<Rightarrow> Context \<Rightarrow> Module \<Rightarrow> string \<Rightarrow> error + string" where
  "renderImport h ctx m urn =
     (let p = paths_get (render_paths h ctx (imports' m)) urn;
          imps = sorted_members h (imports' m) urn
      in ebind
           (if list_all type imps
            then ebind (traverse (Import_render True (names m)) imps) (\<lambda>rs.
                   Inr (''import type { '' @ join '', '' rs @ '' }''))
            else ebind (traverse (Import_render False (names m)) imps) (\<lambda>rs.
                   Inr (''import { '' @ join '', '' rs @ '' }'')))
           (\<lambda>statement. Inr (statement @ '' from '' @ JSON_stringify p @ '';'')))"

definition renderGroup :: "Host \<Rightarrow> Context \<Rightarrow> Module \<Rightarrow> string list \<Rightarrow> error + string" where
  "renderGroup h ctx m urns =
     ebind (traverse (renderImport h ctx m) urns) (\<lambda>rs. Inr (join [CHR 0x0A] rs))"

text \<open>
  \<^verbatim>\<open>Imports.render\<close>, for the import table and the names of the module \<open>m\<close> (the receiver
  is \<^verbatim>\<open>module.imports\<close>).
\<close>

definition Imports_render :: "Host \<Rightarrow> Module \<Rightarrow> Context \<Rightarrow> error + string" where
  "Imports_render h m ctx =
     ebind (traverse (renderGroup h ctx m) (render_groups h ctx (imports' m))) (\<lambda>gs.
       Inr (join [CHR 0x0A, CHR 0x0A] gs))"


section \<open>Type compiler\<close>

text \<open>
  A generator of the source is a closure \<^verbatim>\<open>(module) => (ctx) => string\<close>. Building it can
  throw (stage 0), applying it to the module registers names and imports and can throw
  (stage 1), and the closure it returns renders text from the context and can throw
  (stage 2). The bindings a renderer calls read the module inside the context, which is
  the module after \<^verbatim>\<open>names.resolve()\<close>.
\<close>

type_synonym Renderer = "Context \<Rightarrow> error + string"

type_synonym Generator = "Module \<Rightarrow> error + (Renderer \<times> Module)"

text \<open>\<^verbatim>\<open>defs.map((def) => def(module))\<close>: the generators are applied in order to the module.\<close>

fun apply_all :: "Generator list \<Rightarrow> Module \<Rightarrow> error + (Renderer list \<times> Module)" where
  "apply_all [] m = Inr ([], m)"
| "apply_all (g # gs) m =
     ebind (g m) (\<lambda>(r, m1).
       ebind (apply_all gs m1) (\<lambda>(rs, m2). Inr (r # rs, m2)))"

definition render_all :: "Renderer list \<Rightarrow> Context \<Rightarrow> error + string list" where
  "render_all rs ctx = traverse (\<lambda>r. r ctx) rs"

definition lit :: "string \<Rightarrow> string" where
  "lit s = JSON_stringify s"

text \<open>
  \<^verbatim>\<open>doc\<close>: \<^verbatim>\<open>trimEnd\<close> removes the trailing white space and line terminators,
  \<^verbatim>\<open>split("\n")\<close> cuts at every line feed, \<^verbatim>\<open>replaceAll("*/", "*\\/")\<close> escapes every
  comment end from left to right.
\<close>

definition is_space :: "char \<Rightarrow> bool" where
  "is_space c \<longleftrightarrow> (of_char c :: nat) \<in> {9, 10, 11, 12, 13, 32, 160}"

definition trimEnd :: "string \<Rightarrow> string" where
  "trimEnd s = rev (dropWhile is_space (rev s))"

fun split_on :: "char \<Rightarrow> string \<Rightarrow> string list" where
  "split_on sep [] = [[]]"
| "split_on sep (c # cs) =
     (if c = sep then [] # split_on sep cs
      else (case split_on sep cs of [] \<Rightarrow> [[c]] | l # ls \<Rightarrow> (c # l) # ls))"

fun escape_comment_end :: "string \<Rightarrow> string" where
  "escape_comment_end (a # b # cs) =
     (if a = CHR ''*'' \<and> b = CHR ''/'' then [CHR ''*'', CHR 0x5C, CHR ''/''] @ escape_comment_end cs
      else a # escape_comment_end (b # cs))"
| "escape_comment_end cs = cs"

definition doc :: "'a DefinitionMeta_scheme \<Rightarrow> nat \<Rightarrow> string" where
  "doc meta indent =
     (let lines = (case description meta of
                     None \<Rightarrow> []
                   | Some d \<Rightarrow> if d \<noteq> [] then split_on (CHR 0x0A) (trimEnd d) else []) @
                  (if deprecated meta then [''@deprecated''] else []);
          prefix = concat (replicate indent ''  '')
      in if lines = [] then []
         else prefix @ ''/**'' @ [CHR 0x0A] @
              concat (map (\<lambda>l. prefix @ '' * '' @ escape_comment_end l @ [CHR 0x0A]) lines) @
              prefix @ '' */'' @ [CHR 0x0A])"

text \<open>The test of the regular expression \<^verbatim>\<open>/^[A-Za-z]\w*$/\<close>.\<close>

definition is_alpha :: "char \<Rightarrow> bool" where
  "is_alpha c \<longleftrightarrow> (65 \<le> (of_char c :: nat) \<and> (of_char c :: nat) \<le> 90) \<or>
                 (97 \<le> (of_char c :: nat) \<and> (of_char c :: nat) \<le> 122)"

definition is_word :: "char \<Rightarrow> bool" where
  "is_word c \<longleftrightarrow> is_alpha c \<or> (48 \<le> (of_char c :: nat) \<and> (of_char c :: nat) \<le> 57) \<or> c = CHR ''_''"

definition is_identifier :: "string \<Rightarrow> bool" where
  "is_identifier s = (case s of [] \<Rightarrow> False | c # cs \<Rightarrow> is_alpha c \<and> list_all is_word cs)"

text \<open>The options \<^verbatim>\<open>{ type: true }\<close>.\<close>

definition type_only :: "ImportOptions option" where
  "type_only = Some \<lparr>opt_as = None, opt_type = Some True\<rparr>"

definition gen_reference :: "TypeReference \<Rightarrow> Generator" where
  "gen_reference ref =
     (case target_scope ref of
        None \<Rightarrow> (\<lambda>m. Inr (\<lambda>ctx. Module_get (target_name ref) (module ctx), m))
      | Some scope \<Rightarrow>
          (let p = (case group_module (scope_group scope) of
                      None \<Rightarrow> []
                    | Some g \<Rightarrow> if g \<noteq> [] then g @ ''/'' else []) @ scope_version scope @ ''.ts'';
               s = (case scope_package scope of
                      None \<Rightarrow> Local p
                    | Some pkg \<Rightarrow> if pkg \<noteq> [] then Api pkg (Some p) else Local p)
           in (\<lambda>m. case Module_import s (target_name ref) type_only m of
                      (b, m1) \<Rightarrow> Inr (\<lambda>ctx. b (module ctx), m1))))"

definition gen_string :: "string list option \<Rightarrow> Generator" where
  "gen_string enum_values =
     (\<lambda>m. Inr (\<lambda>ctx. Inr (case enum_values of
                              None \<Rightarrow> ''string''
                            | Some vs \<Rightarrow> join '' | '' (map JSON_stringify vs)), m))"

definition gen_number :: Generator where
  "gen_number = (\<lambda>m. Inr (\<lambda>ctx. Inr ''number'', m))"

definition gen_boolean :: Generator where
  "gen_boolean = (\<lambda>m. Inr (\<lambda>ctx. Inr ''boolean'', m))"

definition gen_unknown :: Generator where
  "gen_unknown = (\<lambda>m. Inr (\<lambda>ctx. Inr ''unknown'', m))"

text \<open>
  The closures that \<^verbatim>\<open>gen.array\<close>, \<^verbatim>\<open>gen.map\<close>, \<^verbatim>\<open>gen.union\<close>, \<^verbatim>\<open>gen.optional\<close>,
  \<^verbatim>\<open>gen.object\<close> and \<^verbatim>\<open>gen.property\<close> return, given the generators of the parts.
\<close>

definition array_generator :: "Generator \<Rightarrow> Generator" where
  "array_generator valueType =
     (\<lambda>m. ebind (valueType m) (\<lambda>(v, m1).
        Inr (\<lambda>ctx. ebind (v ctx) (\<lambda>t. Inr (''Array<'' @ t @ ''>'')), m1)))"

definition map_generator :: "Generator \<Rightarrow> Generator" where
  "map_generator valueType =
     (\<lambda>m. ebind (valueType m) (\<lambda>(v, m1).
        Inr (\<lambda>ctx. ebind (v ctx) (\<lambda>t. Inr (''Record<string, '' @ t @ ''>'')), m1)))"

definition union_generator :: "Generator list \<Rightarrow> Generator" where
  "union_generator valueTypes =
     (\<lambda>m. ebind (apply_all valueTypes m) (\<lambda>(vs, m1).
        Inr (\<lambda>ctx. ebind (render_all vs ctx) (\<lambda>ts. Inr (join '' | '' ts)), m1)))"

definition optional_generator :: "Generator \<Rightarrow> Generator" where
  "optional_generator valueType =
     (\<lambda>m. ebind (valueType m) (\<lambda>(v, m1).
        Inr (\<lambda>ctx. ebind (v ctx) (\<lambda>t. Inr (t @ '' | null'')), m1)))"

definition object_generator :: "Generator list \<Rightarrow> Generator list \<Rightarrow> Generator" where
  "object_generator parentDefs propertyDefs =
     (\<lambda>m. ebind (apply_all parentDefs m) (\<lambda>(parents, m1).
        ebind (apply_all propertyDefs m1) (\<lambda>(props, m2).
          Inr (\<lambda>ctx. ebind (render_all parents ctx) (\<lambda>ps.
                 ebind (render_all props ctx) (\<lambda>qs.
                   Inr (join '' & '' ps @ ''{'' @ [CHR 0x0A] @ join [CHR 0x0A] qs @
                        [CHR 0x0A] @ ''}''))), m2))))"

definition property_generator :: "Property \<Rightarrow> Generator \<Rightarrow> Generator" where
  "property_generator property valueType =
     (let nm = (if is_identifier (p_name property) then p_name property
                else JSON_stringify (p_name property));
          optional = (if required property then [] else ''?'')
      in (\<lambda>m. ebind (valueType m) (\<lambda>(v, m1).
            Inr (\<lambda>ctx. ebind (v ctx) (\<lambda>t.
                   Inr (doc (p_meta property) 1 @ ''  '' @ nm @ optional @ '': '' @ t @ '';'')),
                 m1))))"

text \<open>
  Stage 0 of \<^verbatim>\<open>gen.type\<close>, \<^verbatim>\<open>gen.object\<close> and \<^verbatim>\<open>gen.property\<close>; \<open>gen_types\<close> and
  \<open>gen_properties\<close> are the maps \<^verbatim>\<open>type.values.map((value) => gen.type(value))\<close> and
  \<^verbatim>\<open>type.properties.map(gen.property)\<close>.
\<close>

fun gen_type :: "Type \<Rightarrow> bool \<Rightarrow> error + Generator"
  and gen_object :: "Property list \<Rightarrow> TypeReference list option \<Rightarrow> bool \<Rightarrow> error + Generator"
  and gen_types :: "Type list \<Rightarrow> error + Generator list"
  and gen_property :: "Property \<Rightarrow> error + Generator"
  and gen_properties :: "Property list \<Rightarrow> error + Generator list" where
  "gen_type (StringType enum_values) declaration = Inr (gen_string enum_values)"
| "gen_type IntegerType declaration = Inr gen_number"
| "gen_type FloatType declaration = Inr gen_number"
| "gen_type BooleanType declaration = Inr gen_boolean"
| "gen_type (ArrayType t) declaration =
     ebind (gen_type t False) (\<lambda>valueType. Inr (array_generator valueType))"
| "gen_type (MapType t) declaration =
     ebind (gen_type t False) (\<lambda>valueType. Inr (map_generator valueType))"
| "gen_type (ObjectType props inherit) declaration = gen_object props inherit declaration"
| "gen_type (UnionType ts) declaration =
     ebind (gen_types ts) (\<lambda>valueTypes. Inr (union_generator valueTypes))"
| "gen_type (OptionalType t) declaration =
     ebind (gen_type t False) (\<lambda>valueType. Inr (optional_generator valueType))"
| "gen_type (ReferenceType ref) declaration = Inr (gen_reference ref)"
| "gen_type UnknownType declaration = Inr gen_unknown"
| "gen_type (ResourceType props scope) declaration = Inl ResourceNotAllowed"
| "gen_object props inherit declaration =
     (let parentDefs = (case inherit of
                          None \<Rightarrow> []
                        | Some refs \<Rightarrow> if refs \<noteq> [] \<and> \<not> declaration
                                       then map gen_reference refs else [])
      in ebind (gen_properties props) (\<lambda>propertyDefs.
           Inr (object_generator parentDefs propertyDefs)))"
| "gen_types [] = Inr []"
| "gen_types (t # ts) =
     ebind (gen_type t False) (\<lambda>g. ebind (gen_types ts) (\<lambda>gs. Inr (g # gs)))"
| "gen_property (Property nm req t meta) =
     ebind (gen_type t False) (\<lambda>valueType.
       Inr (property_generator (Property nm req t meta) valueType))"
| "gen_properties [] = Inr []"
| "gen_properties (p # ps) =
     ebind (gen_property p) (\<lambda>g. ebind (gen_properties ps) (\<lambda>gs. Inr (g # gs)))"


section \<open>Definitions, the module and \<^verbatim>\<open>emitVersion\<close>\<close>

fun as_reference :: "Type \<Rightarrow> TypeReference option" where
  "as_reference (ReferenceType ref) = Some ref"
| "as_reference t = None"

fun as_resource :: "Type \<Rightarrow> (Property list \<times> string) option" where
  "as_resource (ResourceType props scope) = Some (props, scope)"
| "as_resource t = None"

fun as_object :: "Type \<Rightarrow> (Property list \<times> TypeReference list option) option" where
  "as_object (ObjectType props inherit) = Some (props, inherit)"
| "as_object t = None"

definition schema_lib :: ImportSource where
  "schema_lib = Lib ''schema'' None"

text \<open>The generator \<^verbatim>\<open>apiVersion\<close>.\<close>

definition apiVersion :: Generator where
  "apiVersion =
     (\<lambda>m. ebind (Module_name ''APIVersion'' Declaration m) (\<lambda>(ty, m1).
        ebind (Module_name ''apiVersion'' Declaration m1) (\<lambda>(val, m2).
          Inr (\<lambda>ctx. ebind (ty (module ctx)) (\<lambda>t.
                 ebind (val (module ctx)) (\<lambda>v.
                   Inr (''export type '' @ t @ '' = '' @ lit (Context_apiVersion ctx) @ '';'' @
                        [CHR 0x0A] @
                        ''export const '' @ v @ '': '' @ t @ '' = '' @
                        lit (Context_apiVersion ctx) @ '';''))), m2))))"

text \<open>The generator that \<^verbatim>\<open>resourceBase\<close> returns, given the generator of the metadata type.\<close>

definition resource_base_generator :: "Generator \<Rightarrow> Generator" where
  "resource_base_generator refType =
     (\<lambda>m. ebind (Module_name ''Resource'' Declaration m) (\<lambda>(resource, m1).
        case Module_import schema_lib ''Resource'' type_only m1 of (base, m2) \<Rightarrow>
        case Module_import schema_lib ''NameScope'' type_only m2 of (scope, m3) \<Rightarrow>
        ebind (refType m3) (\<lambda>(metadata, m4).
          Inr (\<lambda>ctx.
                 ebind (base (module ctx)) (\<lambda>b.
                 ebind (resource (module ctx)) (\<lambda>r.
                 ebind (scope (module ctx)) (\<lambda>s.
                 ebind (Module_get ''APIVersion'' (module ctx)) (\<lambda>a.
                 ebind (metadata ctx) (\<lambda>md.
                   Inr (''/** A {@link '' @ b @ '' resource} in the `'' @ Context_apiVersion ctx @
                        ''` API. */'' @ [CHR 0x0A] @
                        ''export type '' @ r @ ''<K extends string, S extends '' @ s @ '' = '' @
                        lit ''namespace'' @ ''>'' @
                        '' = '' @ b @ ''<'' @ a @ '', K, S, '' @ md @ ''>;'')))))),
               m4))))"

definition resourceBase :: "Definition list \<Rightarrow> error + Generator option" where
  "resourceBase defs =
     (case find (\<lambda>d. as_resource (d_value d) \<noteq> None) defs of
        None \<Rightarrow> Inr None
      | Some resourceDef \<Rightarrow>
          (case as_resource (d_value resourceDef) of
             None \<Rightarrow> Inr None
           | Some (props, scope) \<Rightarrow>
               (case find (\<lambda>p. p_name p = ''metadata'' \<and> as_reference (p_value p) \<noteq> None) props of
                  None \<Rightarrow> Inl (NoMetadataField (d_name resourceDef))
                | Some metadata \<Rightarrow>
                    (case as_reference (p_value metadata) of
                       None \<Rightarrow> Inl (NoMetadataField (d_name resourceDef))
                     | Some ref \<Rightarrow> Inr (Some (resource_base_generator (gen_reference ref)))))))"

text \<open>The generator that \<^verbatim>\<open>gen.resource\<close> returns, with its three parts.\<close>

definition resource_generator :: "Definition \<Rightarrow> string \<Rightarrow> Generator \<Rightarrow> Generator" where
  "resource_generator def scope objectType =
     (\<lambda>m. case Module_import schema_lib ''factory'' None m of (factoryBase, m1) \<Rightarrow>
           case Module_import schema_lib ''ResourceList'' type_only m1 of (listBase, m2) \<Rightarrow>
           ebind (Module_name (d_name def) Declaration m2) (\<lambda>(nm, m3).
           ebind (Module_name (d_name def @ ''List'') Declaration m3) (\<lambda>(listName, m4).
           ebind (objectType m4) (\<lambda>(object, m5).
             Inr (\<lambda>ctx.
                    ebind (nm (module ctx)) (\<lambda>n.
                    ebind (Module_get ''Resource'' (module ctx)) (\<lambda>apiResource.
                    ebind (object ctx) (\<lambda>obj.
                    ebind (Module_get ''apiVersion'' (module ctx)) (\<lambda>av.
                    ebind (factoryBase (module ctx)) (\<lambda>fb.
                    ebind (listName (module ctx)) (\<lambda>ln.
                    ebind (listBase (module ctx)) (\<lambda>lb.
                      Inr (join [CHR 0x0A, CHR 0x0A]
                        [doc def 0 @ ''export interface '' @ n @ '' extends '' @ apiResource @
                           ''<'' @ join '', '' ([lit n] @ (if scope \<noteq> ''namespace'' then [lit scope] else [])) @
                           ''> '' @ obj,
                         ''export const '' @ n @ '' = '' @ fb @ ''<'' @ n @ ''>('' @
                           join '', '' [av, lit n, lit scope] @ '');'',
                         ''export type '' @ ln @ '' = '' @ lb @ ''<'' @ n @ ''>;''])))))))),
                  m5)))))"

text \<open>
  \<^verbatim>\<open>gen.resource\<close>. The filter \<^verbatim>\<open>p !== metaProperty\<close> drops the one property object found,
  which is the first property equal to it.
\<close>

definition gen_resource :: "Definition \<Rightarrow> Property list \<Rightarrow> string \<Rightarrow> error + Generator" where
  "gen_resource def props scope =
     (case find (\<lambda>p. p_name p = ''metadata'') props of
        None \<Rightarrow> Inl (ExpectedMetadataReference (d_name def))
      | Some metaProperty \<Rightarrow>
          if as_reference (p_value metaProperty) = None
          then Inl (ExpectedMetadataReference (d_name def))
          else ebind (gen_object (remove1 metaProperty props) None False) (\<lambda>objectType.
                 Inr (resource_generator def scope objectType)))"

definition interface_generator :: "Definition \<Rightarrow> Generator \<Rightarrow> Generator list \<Rightarrow> Generator" where
  "interface_generator def objectType parentDefs =
     (\<lambda>m. ebind (Module_name (d_name def) Declaration m) (\<lambda>(nm, m1).
        ebind (objectType m1) (\<lambda>(object, m2).
        ebind (apply_all parentDefs m2) (\<lambda>(parents, m3).
          Inr (\<lambda>ctx.
                 ebind (if parents \<noteq> []
                        then ebind (render_all parents ctx) (\<lambda>ps. Inr ('' extends '' @ join '', '' ps))
                        else Inr []) (\<lambda>extend.
                 ebind (nm (module ctx)) (\<lambda>n.
                 ebind (object ctx) (\<lambda>obj.
                   Inr (doc def 0 @ ''export interface '' @ n @ extend @ '' '' @ obj)))),
               m3)))))"

definition gen_interface ::
  "Definition \<Rightarrow> Property list \<Rightarrow> TypeReference list option \<Rightarrow> error + Generator" where
  "gen_interface def props inherit =
     ebind (gen_type (ObjectType props inherit) True) (\<lambda>objectType.
       Inr (interface_generator def objectType
              (case inherit of None \<Rightarrow> [] | Some refs \<Rightarrow> map gen_reference refs)))"

text \<open>The two closures of \<^verbatim>\<open>gen.definition\<close>: for a reference and for every other type.\<close>

definition reexport_generator :: "Definition \<Rightarrow> TypeReference \<Rightarrow> Generator \<Rightarrow> Generator" where
  "reexport_generator def ref refType =
     (\<lambda>m. ebind (if d_name def \<noteq> target_name ref
                  then ebind (Module_name (d_name def) Declaration m) (\<lambda>(nm, m1). Inr (Some nm, m1))
                  else Inr (None, m)) (\<lambda>(nm, m1).
        ebind (refType m1) (\<lambda>(r, m2).
          Inr (\<lambda>ctx.
                 ebind (case nm of
                          None \<Rightarrow> Inr []
                        | Some b \<Rightarrow> ebind (b (module ctx)) (\<lambda>n. Inr ('' as '' @ n))) (\<lambda>as_text.
                 ebind (r ctx) (\<lambda>t.
                   Inr (doc def 0 @ ''export type { '' @ t @ as_text @ '' };''))),
               m2))))"

definition alias_generator :: "Definition \<Rightarrow> Generator \<Rightarrow> Generator" where
  "alias_generator def valueType =
     (\<lambda>m. ebind (Module_name (d_name def) Declaration m) (\<lambda>(nm, m1).
        ebind (valueType m1) (\<lambda>(v, m2).
          Inr (\<lambda>ctx.
                 ebind (nm (module ctx)) (\<lambda>n.
                 ebind (v ctx) (\<lambda>t.
                   Inr (doc def 0 @ ''export type '' @ n @ '' = '' @ t @ '';''))),
               m2))))"

definition gen_definition :: "Definition \<Rightarrow> error + Generator" where
  "gen_definition def =
     (case as_resource (d_value def) of
        Some (props, scope) \<Rightarrow> gen_resource def props scope
      | None \<Rightarrow>
          (case as_object (d_value def) of
             Some (props, inherit) \<Rightarrow> gen_interface def props inherit
           | None \<Rightarrow>
               (case as_reference (d_value def) of
                  Some ref \<Rightarrow> Inr (reexport_generator def ref (gen_reference ref))
                | None \<Rightarrow>
                    ebind (gen_type (d_value def) True) (\<lambda>valueType.
                      Inr (alias_generator def valueType)))))"

text \<open>
  \<^verbatim>\<open>Module.render\<close>, for the member list built by \<^verbatim>\<open>Module.add\<close>. The context holds the
  module itself, so the render pass runs on the context whose module is the module after
  the apply pass and \<^verbatim>\<open>names.resolve()\<close>.
\<close>

definition Module_render :: "Host \<Rightarrow> Generator list \<Rightarrow> Context \<Rightarrow> error + string" where
  "Module_render h gens ctx =
     ebind (apply_all gens (module ctx)) (\<lambda>(renderers, m1).
     ebind (resolve_imports m1) (\<lambda>m2.
     ebind (Imports_render h m2 (ctx\<lparr>module := m2\<rparr>)) (\<lambda>imports_text.
     ebind (render_all renderers (ctx\<lparr>module := m2\<rparr>)) (\<lambda>texts.
       Inr (join [CHR 0x0A, CHR 0x0A] (filter (\<lambda>s. s \<noteq> []) (imports_text # texts)))))))"

definition emitVersion :: "Host \<Rightarrow> APIGroupVersion \<Rightarrow> Engine \<Rightarrow> error + string" where
  "emitVersion h schema e =
     (let m = Module_new
                ((case group_module (schema_group schema) of
                    None \<Rightarrow> []
                  | Some g \<Rightarrow> if g \<noteq> [] then g @ ''/'' else []) @
                 schema_version schema @ ''.ts'')
      in ebind (resourceBase (definitions schema)) (\<lambda>resource.
         ebind (traverse gen_definition (definitions schema)) (\<lambda>defs.
           Module_render h
             ([apiVersion] @ (case resource of None \<Rightarrow> [] | Some r \<Rightarrow> [r]) @ defs)
             (Context_new schema m e))))"


section \<open>A host for examples\<close>

text \<open>
  One instance of the host's functions, used to evaluate the generator on concrete
  schemas: the path functions for paths made of plain segments (no \<^verbatim>\<open>..\<close>), and for
  \<^verbatim>\<open>localeCompare\<close> the default collation (the root collation of CLDR) on printable ASCII.
  That collation orders the characters as space, then \<^verbatim>\<open>_ - , ; : ! ? .\<close>, the
  apostrophe, the double quote, \<^verbatim>\<open>( ) [ ] { } @ * /\<close>, the backslash,
  \<^verbatim>\<open>& # % ` ^ + < = > | ~ $\<close>, then the digits, then the letters, a letter and
  its capital having the same rank; strings are compared
  by the ranks of their characters first, and strings of equal ranks by case, a small
  letter before its capital. Other characters are outside this model (they are ranked
  after the letters, by code unit).
\<close>

definition collation_symbols :: string where
  "collation_symbols =
     '' _-,;:!?.'' @ [CHR 0x27, CHR 0x22] @ ''()[]{}@*/'' @ [CHR 0x5C] @
     ''&#%`^+<=>|~$0123456789''"

fun position :: "char \<Rightarrow> string \<Rightarrow> nat" where
  "position c [] = 0"
| "position c (x # xs) = (if c = x then 0 else Suc (position c xs))"

definition primary_rank :: "char \<Rightarrow> nat" where
  "primary_rank c =
     (if 65 \<le> (of_char c :: nat) \<and> (of_char c :: nat) \<le> 90 then 100 + ((of_char c :: nat) - 65)
      else if 97 \<le> (of_char c :: nat) \<and> (of_char c :: nat) \<le> 122 then 100 + ((of_char c :: nat) - 97)
      else if c \<in> set collation_symbols then position c collation_symbols
      else 200 + (of_char c :: nat))"

definition case_rank :: "char \<Rightarrow> nat" where
  "case_rank c = (if 65 \<le> (of_char c :: nat) \<and> (of_char c :: nat) \<le> 90 then 1 else 0)"

definition collation_compare :: "string \<Rightarrow> string \<Rightarrow> int" where
  "collation_compare a b =
     (if map primary_rank a < map primary_rank b then - 1
      else if map primary_rank b < map primary_rank a then 1
      else if map case_rank a < map case_rank b then - 1
      else if map case_rank b < map case_rank a then 1
      else 0)"

definition segments :: "string \<Rightarrow> string list" where
  "segments s = filter (\<lambda>x. x \<noteq> [] \<and> x \<noteq> ''.'') (split_on (CHR ''/'') s)"

definition posix_dirname :: "string \<Rightarrow> string" where
  "posix_dirname s =
     (if take 1 s = ''/'' then ''/'' @ join ''/'' (butlast (segments s))
      else if length (segments s) \<le> 1 then ''.''
      else join ''/'' (butlast (segments s)))"

definition posix_basename :: "string \<Rightarrow> string" where
  "posix_basename s = (case rev (segments s) of [] \<Rightarrow> [] | x # xs \<Rightarrow> x)"

fun strip_common :: "string list \<Rightarrow> string list \<Rightarrow> string list \<times> string list" where
  "strip_common (x # xs) (y # ys) = (if x = y then strip_common xs ys else (x # xs, y # ys))"
| "strip_common xs ys = (xs, ys)"

definition posix_relative :: "string \<Rightarrow> string \<Rightarrow> string" where
  "posix_relative a b =
     (case strip_common (segments a) (segments b) of
        (up, down) \<Rightarrow> join ''/'' (replicate (length up) ''..'' @ down))"

definition example_host :: Host where
  "example_host =
     \<lparr>localeCompare = collation_compare, dirname = posix_dirname,
      basename = posix_basename, relative = posix_relative\<rparr>"

definition no_meta :: DefinitionMeta where
  "no_meta = \<lparr>description = None, deprecated = False\<rparr>"

text \<open>Expected texts are written line by line; \<open>quoted\<close> puts a text between double quotes.\<close>

definition quoted :: "string \<Rightarrow> string" where
  "quoted s = [CHR 0x22] @ s @ [CHR 0x22]"

definition text_lines :: "string list \<Rightarrow> string" where
  "text_lines ls = join [CHR 0x0A] ls"

definition example_schema :: "(string \<times> string) list \<Rightarrow> Definition list \<Rightarrow> APIGroupVersion" where
  "example_schema deps defs =
     \<lparr>schema_group = \<lparr>group_name = Some ''example.com'', group_module = None\<rparr>,
      schema_version = ''v1'',
      schema_dependencies = map (\<lambda>(p, v). \<lparr>package = p, dep_version = v\<rparr>) deps,
      definitions = defs\<rparr>"

text \<open>A reference to the definition \<open>nm\<close> of version \<^verbatim>\<open>v1\<close> of the package \<^verbatim>\<open>other\<close>.\<close>

definition other_ref :: "string \<Rightarrow> TypeReference" where
  "other_ref nm =
     \<lparr>target_scope = Some \<lparr>scope_group = \<lparr>group_name = Some ''other'', group_module = None\<rparr>,
                            scope_version = ''v1'', scope_package = Some ''other''\<rparr>,
      target_name = nm\<rparr>"

text \<open>The context of an example schema without definitions.\<close>

definition example_context :: "(string \<times> string) list \<Rightarrow> Engine \<Rightarrow> Context" where
  "example_context deps e = Context_new (example_schema deps []) (Module_new ''v1.ts'') e"

text \<open>
  A module after the apply pass and \<^verbatim>\<open>names.resolve()\<close> that imports from a local file
  first and from the schema library second.
\<close>

definition example_imports :: Module where
  "example_imports =
     (case resolve_imports
             (import_all [(Local ''meta/v1.ts'', ''ObjectMeta'', type_only),
                          (schema_lib, ''factory'', None),
                          (schema_lib, ''Resource'', type_only)] (Module_new ''v1.ts'')) of
        Inl e \<Rightarrow> Module_new ''v1.ts''
      | Inr m \<Rightarrow> m)"

text \<open>
  A module after the apply pass and \<^verbatim>\<open>names.resolve()\<close> that imports one member from a
  local file first and one member from the schema library second: rendering it compares
  no two strings.
\<close>

definition example_single_imports :: Module where
  "example_single_imports =
     (case resolve_imports
             (import_all [(Local ''meta/v1.ts'', ''ObjectMeta'', type_only),
                          (schema_lib, ''factory'', None)] (Module_new ''v1.ts'')) of
        Inl e \<Rightarrow> Module_new ''v1.ts''
      | Inr m \<Rightarrow> m)"

section \<open>Invariants of the identifier table\<close>

text \<open>
  What every table built by \<^verbatim>\<open>Names.add\<close> satisfies: the keys are distinct, the groups
  partition the addresses of the store, every name sits in the group of its raw name, and
  a group holds at most one declaration.
\<close>

definition names_inv :: "Names \<Rightarrow> bool" where
  "names_inv ns \<longleftrightarrow>
     distinct (map fst (bound ns)) \<and>
     distinct (concat (map snd (bound ns))) \<and>
     set (concat (map snd (bound ns))) = {..<length (store ns)} \<and>
     (\<forall>(t, addrs) \<in> set (bound ns). \<forall>a \<in> set addrs. declared (store ns ! a) = t) \<and>
     (\<forall>(t, addrs) \<in> set (bound ns).
        length (filter (\<lambda>a. usage (store ns ! a) = Declaration) addrs) \<le> 1)"

text \<open>Each group lists, in registration order, the grp registered under its raw name.\<close>

definition names_groups :: "Names \<Rightarrow> bool" where
  "names_groups ns \<longleftrightarrow>
     distinct (map fst (bound ns)) \<and>
     (\<forall>k < length (store ns). declared (store ns ! k) \<in> fst ` set (bound ns)) \<and>
     (\<forall>(t, addrs) \<in> set (bound ns).
        addrs = filter (\<lambda>k. declared (store ns ! k) = t) [0..<length (store ns)])"

section \<open>Declarations kept by the apply pass\<close>



text \<open>The group of a raw name, empty when the table has none.\<close>

definition group_of :: "Names \<Rightarrow> string \<Rightarrow> nat list" where
  "group_of ns t = (case map_of (bound ns) t of None \<Rightarrow> [] | Some g \<Rightarrow> g)"

text \<open>An import that holds the address of the name registered for it.\<close>

definition named_import :: "Names \<Rightarrow> Import \<Rightarrow> bool" where
  "named_import ns imp \<longleftrightarrow>
     (\<exists>a. name imp = Some a \<and> a < length (store ns) \<and>
          store ns ! a = \<lparr>declared = raw_name imp, usage = Import, resolved = None\<rparr>)"

text \<open>The members of one imported module with their keys.\<close>

definition flat_members :: "string \<Rightarrow> (string \<times> Import) list \<Rightarrow> ((string \<times> string) \<times> Import) list" where
  "flat_members urn ms = map (\<lambda>(k, imp). ((urn, k), imp)) ms"

section \<open>The identifier table keeps its invariants\<close>

lemma names_inv_empty: "names_inv Names_empty"
  by (simp add: names_inv_def Names_empty_def)

lemma update_concat_set:
  "map_of b k = Some v \<Longrightarrow>
   set (concat (map snd (AList.update k (v @ [a]) b))) = insert a (set (concat (map snd b)))"
  by (induction b) (auto split: if_splits)

lemma update_concat_Un:
  "map_of b k = Some v \<Longrightarrow>
   (\<Union>x\<in>set (AList.update k (v @ [a]) b). set (snd x)) = insert a (\<Union>x\<in>set b. set (snd x))"
  using update_concat_set[of b k v a] by simp

lemma update_concat_distinct:
  "map_of b k = Some v \<Longrightarrow> distinct (concat (map snd b)) \<Longrightarrow> a \<notin> set (concat (map snd b)) \<Longrightarrow>
   distinct (concat (map snd (AList.update k (v @ [a]) b)))"
  by (induction b) (auto split: if_splits simp: update_concat_Un)

lemma update_set_cases:
  "(t, addrs) \<in> set (AList.update k w b) \<Longrightarrow> (t, addrs) \<in> set b \<or> (t = k \<and> addrs = w)"
  by (induction b) (auto split: if_splits)

lemma map_of_in_set: "map_of b k = Some v \<Longrightarrow> (k, v) \<in> set b"
  by (rule map_of_SomeD)

lemma names_inv_token:
  assumes "names_inv ns" "Names_token t ns = (grp, ns1)"
  shows "names_inv ns1 \<and> map_of (bound ns1) t = Some grp \<and> store ns1 = store ns"
proof (cases "map_of (bound ns) t")
  case None
  then have nin: "t \<notin> fst ` set (bound ns)" by (simp add: map_of_eq_None_iff)
  from assms None have grp: "grp = []" and ns1: "ns1 = ns\<lparr>bound := bound ns @ [(t, [])]\<rparr>"
    by (auto simp: Names_token_def)
  have m: "map_of (bound ns1) t = Some grp"
    using None by (simp add: ns1 grp map_add_def)
  have "names_inv ns1"
    using assms(1) nin unfolding names_inv_def ns1 by auto
  with m show ?thesis by (simp add: ns1)
next
  case (Some v)
  with assms show ?thesis by (auto simp: Names_token_def)
qed

lemma names_inv_add:
  assumes inv: "names_inv ns" and add: "Names_add t u ns = Inr (a, ns')"
  shows "names_inv ns'"
proof -
  obtain grp ns1 where tok: "Names_token t ns = (grp, ns1)" by (cases "Names_token t ns")
  from names_inv_token[OF inv tok]
  have inv1: "names_inv ns1" and m: "map_of (bound ns1) t = Some grp" and st: "store ns1 = store ns"
    by auto
  from add tok have noconf: "\<not> list_ex (\<lambda>a. isConflict (store ns1 ! a) u) grp"
    and a: "a = length (store ns1)"
    and ns': "ns' = ns1\<lparr>store := store ns1 @ [\<lparr>declared = t, usage = u, resolved = None\<rparr>],
                      bound := AList.update t (grp @ [a]) (bound ns1)\<rparr>"
    by (auto simp: Names_add_def split: if_splits)
  have mem: "(t, grp) \<in> set (bound ns1)" using m by (rule map_of_SomeD)
  have fresh: "a \<notin> set (concat (map snd (bound ns1)))"
    using inv1 a by (simp add: names_inv_def)
  have lt: "\<And>t' addrs x. (t', addrs) \<in> set (bound ns1) \<Longrightarrow> x \<in> set addrs \<Longrightarrow> x < length (store ns1)"
  proof -
    fix t' addrs x assume "(t', addrs) \<in> set (bound ns1)" "x \<in> set addrs"
    then have "x \<in> set (concat (map snd (bound ns1)))" by force
    with inv1 show "x < length (store ns1)" by (simp add: names_inv_def)
  qed
  have d1: "distinct (map fst (bound ns'))"
    using inv1 by (simp add: ns' names_inv_def distinct_update)
  have d2: "distinct (concat (map snd (bound ns')))"
    using update_concat_distinct[OF m _ fresh] inv1 by (simp add: ns' names_inv_def)
  have d3: "set (concat (map snd (bound ns'))) = {..<length (store ns')}"
    using update_concat_set[OF m, of a] inv1 a by (auto simp: ns' names_inv_def)
  have d4: "\<forall>(t', addrs) \<in> set (bound ns'). \<forall>x \<in> set addrs. declared (store ns' ! x) = t'"
  proof (clarify)
    fix t' addrs x assume in': "(t', addrs) \<in> set (bound ns')" and x: "x \<in> set addrs"
    from in' have "(t', addrs) \<in> set (bound ns1) \<or> (t' = t \<and> addrs = grp @ [a])"
      by (auto simp: ns' dest: update_set_cases)
    then show "declared (store ns' ! x) = t'"
    proof
      assume h: "(t', addrs) \<in> set (bound ns1)"
      then have "x < length (store ns1)" using lt x by blast
      moreover have "declared (store ns1 ! x) = t'" using inv1 h x by (auto simp: names_inv_def)
      ultimately show ?thesis by (simp add: ns' nth_append)
    next
      assume h: "t' = t \<and> addrs = grp @ [a]"
      show ?thesis
      proof (cases "x = a")
        case True then show ?thesis using h a by (simp add: ns')
      next
        case False
        then have xin: "x \<in> set grp" using h x by auto
        then have "x < length (store ns1)" using lt mem by blast
        moreover have "declared (store ns1 ! x) = t" using inv1 mem xin by (auto simp: names_inv_def)
        ultimately show ?thesis using h by (simp add: ns' nth_append)
      qed
    qed
  qed
  have d5: "\<forall>(t', addrs) \<in> set (bound ns').
        length (filter (\<lambda>x. usage (store ns' ! x) = Declaration) addrs) \<le> 1"
  proof (clarify)
    fix t' addrs assume in': "(t', addrs) \<in> set (bound ns')"
    from in' have "(t', addrs) \<in> set (bound ns1) \<or> (t' = t \<and> addrs = grp @ [a])"
      by (auto simp: ns' dest: update_set_cases)
    then show "length (filter (\<lambda>x. usage (store ns' ! x) = Declaration) addrs) \<le> 1"
    proof
      assume h: "(t', addrs) \<in> set (bound ns1)"
      have "filter (\<lambda>x. usage (store ns' ! x) = Declaration) addrs
          = filter (\<lambda>x. usage (store ns1 ! x) = Declaration) addrs"
        by (rule filter_cong) (use lt h in \<open>auto simp: ns' nth_append\<close>)
      then show ?thesis using inv1 h by (auto simp: names_inv_def)
    next
      assume h: "t' = t \<and> addrs = grp @ [a]"
      have eq: "filter (\<lambda>x. usage (store ns' ! x) = Declaration) grp
          = filter (\<lambda>x. usage (store ns1 ! x) = Declaration) grp"
        by (rule filter_cong) (use lt mem in \<open>auto simp: ns' nth_append\<close>)
      have le: "length (filter (\<lambda>x. usage (store ns1 ! x) = Declaration) grp) \<le> 1"
        using inv1 mem by (auto simp: names_inv_def)
      show ?thesis
      proof (cases u)
        case Declaration
        with noconf have "\<forall>x \<in> set grp. usage (store ns1 ! x) \<noteq> Declaration"
          by (auto simp: list_ex_iff isConflict_def)
        then have "filter (\<lambda>x. usage (store ns1 ! x) = Declaration) grp = []"
          by (simp add: filter_empty_conv)
        then show ?thesis using h eq a by (simp add: ns')
      next
        case Import
        then show ?thesis using h eq le a by (simp add: ns')
      qed
    qed
  qed
  show ?thesis unfolding names_inv_def using d1 d2 d3 d4 d5 by blast
qed

lemma names_add_store:
  assumes "Names_add t u ns = Inr (a, ns')"
  shows "a = length (store ns) \<and> store ns' = store ns @ [\<lparr>declared = t, usage = u, resolved = None\<rparr>]"
  using assms by (auto simp: Names_add_def Names_token_def split: if_splits option.splits)

lemma register_all_inv:
  "names_inv ns \<Longrightarrow> register_all regs ns = Inr ns' \<Longrightarrow> names_inv ns'"
proof (induction regs arbitrary: ns)
  case Nil then show ?case by simp
next
  case (Cons r rs)
  obtain t u where r: "r = (t, u)" by (cases r)
  from Cons.prems(2) r obtain a ns1 where add: "Names_add t u ns = Inr (a, ns1)"
    and rest: "register_all rs ns1 = Inr ns'"
    by (auto split: sum.splits)
  from names_inv_add[OF Cons.prems(1) add] Cons.IH rest show ?case by blast
qed

lemma register_all_store:
  "register_all regs ns = Inr ns' \<Longrightarrow>
   store ns' = store ns @ map (\<lambda>(t, u). \<lparr>declared = t, usage = u, resolved = None\<rparr>) regs"
proof (induction regs arbitrary: ns)
  case Nil then show ?case by simp
next
  case (Cons r rs)
  obtain t u where r: "r = (t, u)" by (cases r)
  from Cons.prems r obtain a ns1 where add: "Names_add t u ns = Inr (a, ns1)"
    and rest: "register_all rs ns1 = Inr ns'"
    by (auto split: sum.splits)
  from names_add_store[OF add] Cons.IH[OF rest] r show ?case by simp
qed

lemma set_update_keys: "fst ` set (AList.update k w b) = insert k (fst ` set b)"
  by (induction b) (auto split: if_splits)

lemma update_set_cases_distinct:
  "distinct (map fst b) \<Longrightarrow> (t, addrs) \<in> set (AList.update k w b) \<Longrightarrow>
   (t \<noteq> k \<and> (t, addrs) \<in> set b) \<or> (t = k \<and> addrs = w)"
proof (induction b)
  case Nil then show ?case by simp
next
  case (Cons p ps)
  show ?case
  proof (cases "fst p = k")
    case True
    with Cons.prems have "(t, addrs) = (k, w) \<or> (t, addrs) \<in> set ps" by simp
    moreover have "(t, addrs) \<in> set ps \<Longrightarrow> t \<noteq> k"
      using Cons.prems(1) True by (metis distinct.simps(2) fst_conv image_eqI list.simps(9) set_map)
    ultimately show ?thesis by auto
  next
    case False
    with Cons show ?thesis by (cases p) auto
  qed
qed

lemma filter_upt_append:
  "filter (\<lambda>k. P ((st @ [n]) ! k)) [0..<length st] = filter (\<lambda>k. P (st ! k)) [0..<length st]"
  by (rule filter_cong) (auto simp: nth_append)

lemma names_groups_add:
  assumes inv: "names_groups ns" and add: "Names_add t u ns = Inr (a, ns')"
  shows "names_groups ns'"
proof -
  let ?n = "\<lparr>declared = t, usage = u, resolved = None\<rparr>"
  show ?thesis
  proof (cases "map_of (bound ns) t")
    case None
    then have nin: "t \<notin> fst ` set (bound ns)" by (simp add: map_of_eq_None_iff)
    from add None have ns': "ns' = ns\<lparr>store := store ns @ [?n],
         bound := AList.update t [length (store ns)] (bound ns @ [(t, [])])\<rparr>"
      by (auto simp: Names_add_def Names_token_def split: if_splits)
    have d: "distinct (map fst (bound ns @ [(t, [])]))" using inv nin by (auto simp: names_groups_def)
    have "\<forall>(t', addrs) \<in> set (bound ns').
        addrs = filter (\<lambda>k. declared (store ns' ! k) = t') [0..<length (store ns')]"
    proof clarify
      fix t' addrs assume "(t', addrs) \<in> set (bound ns')"
      then have "(t' \<noteq> t \<and> (t', addrs) \<in> set (bound ns @ [(t, [])])) \<or> (t' = t \<and> addrs = [length (store ns)])"
        using update_set_cases_distinct[OF d] by (simp add: ns')
      then show "addrs = filter (\<lambda>k. declared (store ns' ! k) = t') [0..<length (store ns')]"
      proof
        assume h: "t' \<noteq> t \<and> (t', addrs) \<in> set (bound ns @ [(t, [])])"
        then have "addrs = filter (\<lambda>k. declared (store ns ! k) = t') [0..<length (store ns)]"
          using inv by (auto simp: names_groups_def)
        then show ?thesis using h by (auto simp add: ns' filter_upt_append[of "\<lambda>n. declared n = t'"])
      next
        assume h: "t' = t \<and> addrs = [length (store ns)]"
        have "filter (\<lambda>k. declared (store ns ! k) = t) [0..<length (store ns)] = []"
        proof (rule ccontr)
          assume "filter (\<lambda>k. declared (store ns ! k) = t) [0..<length (store ns)] \<noteq> []"
          then obtain k where "k < length (store ns)" "declared (store ns ! k) = t"
            by (auto simp: filter_empty_conv)
          then show False using inv nin by (auto simp: names_groups_def)
        qed
        then show ?thesis using h by (simp add: ns' filter_upt_append[of "\<lambda>n. declared n = t"])
      qed
    qed
    moreover have "\<forall>k < length (store ns'). declared (store ns' ! k) \<in> fst ` set (bound ns')"
      using inv by (auto simp: ns' set_update_keys names_groups_def nth_append less_Suc_eq)
    ultimately show ?thesis using d by (simp add: names_groups_def ns' distinct_update)
  next
    case (Some grp)
    from add Some have ns': "ns' = ns\<lparr>store := store ns @ [?n],
         bound := AList.update t (grp @ [length (store ns)]) (bound ns)\<rparr>"
      by (auto simp: Names_add_def Names_token_def split: if_splits)
    have d: "distinct (map fst (bound ns))" using inv by (auto simp: names_groups_def)
    have mem: "(t, grp) \<in> set (bound ns)" using Some by (rule map_of_SomeD)
    have "\<forall>(t', addrs) \<in> set (bound ns').
        addrs = filter (\<lambda>k. declared (store ns' ! k) = t') [0..<length (store ns')]"
    proof clarify
      fix t' addrs assume "(t', addrs) \<in> set (bound ns')"
      then have "(t' \<noteq> t \<and> (t', addrs) \<in> set (bound ns)) \<or> (t' = t \<and> addrs = grp @ [length (store ns)])"
        using update_set_cases_distinct[OF d] by (simp add: ns')
      then show "addrs = filter (\<lambda>k. declared (store ns' ! k) = t') [0..<length (store ns')]"
      proof
        assume h: "t' \<noteq> t \<and> (t', addrs) \<in> set (bound ns)"
        then have "addrs = filter (\<lambda>k. declared (store ns ! k) = t') [0..<length (store ns)]"
          using inv by (auto simp: names_groups_def)
        then show ?thesis using h by (auto simp add: ns' filter_upt_append[of "\<lambda>n. declared n = t'"])
      next
        assume h: "t' = t \<and> addrs = grp @ [length (store ns)]"
        have "grp = filter (\<lambda>k. declared (store ns ! k) = t) [0..<length (store ns)]"
          using inv mem by (auto simp: names_groups_def)
        then show ?thesis using h by (simp add: ns' filter_upt_append[of "\<lambda>n. declared n = t"])
      qed
    qed
    moreover have "\<forall>k < length (store ns'). declared (store ns' ! k) \<in> fst ` set (bound ns')"
      using inv by (auto simp: ns' set_update_keys names_groups_def nth_append less_Suc_eq)
    ultimately show ?thesis using d by (simp add: names_groups_def ns' distinct_update)
  qed
qed

section \<open>Resolution\<close>

lemma Name_resolve_sel [simp]:
  "declared (Name_resolve addrs n) = declared n"
  "usage (Name_resolve addrs n) = usage n"
  "resolved (Name_resolve addrs n) = Some (case addrs of None \<Rightarrow> declared n | Some s \<Rightarrow> s)"
  by (simp_all add: Name_resolve_def)

lemma resolve_entries_length [simp]: "length (resolve_entries t k addrs st) = length st"
  by (induction addrs arbitrary: k st) auto

lemma resolve_entries_other: "a \<notin> set addrs \<Longrightarrow> resolve_entries t k addrs st ! a = st ! a"
  by (induction addrs arbitrary: k st) auto

lemma update_usage: "usage (st[a := Name_resolve s (st ! a)] ! x) = usage (st ! x)"
  by (cases "x = a"; cases "a < length st") (auto simp: list_update_beyond)

lemma resolve_entries_usage: "usage (resolve_entries t k addrs st ! a) = usage (st ! a)"
  by (induction addrs arbitrary: k st) (auto simp: update_usage)

lemma resolve_entries_weight:
  "(\<lambda>a. weight (resolve_entries t k addrs st ! a)) = (\<lambda>a. weight (st ! a))"
  by (rule ext) (simp add: resolve_entries_usage weight_def)

lemma resolve_entries_nth:
  "distinct addrs \<Longrightarrow> \<forall>a\<in>set addrs. a < length st \<Longrightarrow> j < length addrs \<Longrightarrow>
   resolve_entries t k addrs st ! (addrs ! j) = Name_resolve (suffixed t (k + j)) (st ! (addrs ! j))"
proof (induction addrs arbitrary: k st j)
  case Nil then show ?case by simp
next
  case (Cons a addrs)
  show ?case
  proof (cases j)
    case 0
    with Cons.prems show ?thesis by (simp add: resolve_entries_other)
  next
    case (Suc j')
    with Cons.prems have j': "j' < length addrs" and ne: "addrs ! j' \<noteq> a" by auto
    have "resolve_entries t (Suc k) addrs (st[a := Name_resolve (suffixed t k) (st ! a)]) ! (addrs ! j')
        = Name_resolve (suffixed t (Suc k + j')) (st[a := Name_resolve (suffixed t k) (st ! a)] ! (addrs ! j'))"
      using Cons.prems j' by (intro Cons.IH) auto
    with ne Suc show ?thesis by simp
  qed
qed

lemma resolve_groups_spec:
  "distinct (concat (map snd b)) \<Longrightarrow> \<forall>a \<in> set (concat (map snd b)). a < length st \<Longrightarrow>
   resolve_groups b st = (b', st') \<Longrightarrow>
   b' = map (\<lambda>(t, addrs). (t, sort_key (\<lambda>a. weight (st ! a)) addrs)) b \<and>
   length st' = length st \<and>
   (\<forall>a. a \<notin> set (concat (map snd b)) \<longrightarrow> st' ! a = st ! a) \<and>
   (\<forall>(t, addrs) \<in> set b. \<forall>j < length addrs.
      st' ! (sort_key (\<lambda>a. weight (st ! a)) addrs ! j)
        = Name_resolve (suffixed t j) (st ! (sort_key (\<lambda>a. weight (st ! a)) addrs ! j)))"
proof (induction b arbitrary: st b' st')
  case Nil then show ?case by simp
next
  case (Cons g rest)
  obtain t addrs where g: "g = (t, addrs)" by (cases g)
  define sorted where "sorted = sort_key (\<lambda>a. weight (st ! a)) addrs"
  define st1 where "st1 = resolve_entries t 0 sorted st"
  obtain rest' st2 where rg: "resolve_groups rest st1 = (rest', st2)"
    by (cases "resolve_groups rest st1")
  from Cons.prems(3) g rg have b': "b' = (t, sorted) # rest'" and st': "st' = st2"
    by (auto simp: sorted_def st1_def Let_def)
  have dist_as: "distinct addrs" and dist_rest: "distinct (concat (map snd rest))"
    and disj: "set addrs \<inter> set (concat (map snd rest)) = {}"
    using Cons.prems(1) g by auto
  have set_sorted: "set sorted = set addrs" and dist_sorted: "distinct sorted"
    and len_sorted: "length sorted = length addrs"
    using dist_as by (simp_all add: sorted_def)
  have rng_as: "\<forall>a\<in>set sorted. a < length st" using Cons.prems(2) g set_sorted by auto
  have rng_rest: "\<forall>a \<in> set (concat (map snd rest)). a < length st1"
    using Cons.prems(2) g by (auto simp: st1_def)
  have w: "(\<lambda>a. weight (st1 ! a)) = (\<lambda>a. weight (st ! a))"
    unfolding st1_def by (rule resolve_entries_weight)
  note IH = Cons.IH[OF dist_rest rng_rest rg, unfolded w]
  have c1: "b' = map (\<lambda>(t, addrs). (t, sort_key (\<lambda>a. weight (st ! a)) addrs)) (g # rest)"
    using IH b' g by (simp add: sorted_def)
  have c2: "length st' = length st" using IH st' by (simp add: st1_def)
  have c3: "\<forall>a. a \<notin> set (concat (map snd (g # rest))) \<longrightarrow> st' ! a = st ! a"
  proof (intro allI impI)
    fix a assume a: "a \<notin> set (concat (map snd (g # rest)))"
    then have "a \<notin> set (concat (map snd rest))" "a \<notin> set sorted" using g set_sorted by auto
    then show "st' ! a = st ! a" using IH st' by (simp add: st1_def resolve_entries_other)
  qed
  have c4: "\<forall>(t', addrs') \<in> set (g # rest). \<forall>j < length addrs'.
      st' ! (sort_key (\<lambda>a. weight (st ! a)) addrs' ! j)
        = Name_resolve (suffixed t' j) (st ! (sort_key (\<lambda>a. weight (st ! a)) addrs' ! j))"
  proof (clarify)
    fix t' addrs' j assume mem: "(t', addrs') \<in> set (g # rest)" and j: "j < length addrs'"
    show "st' ! (sort_key (\<lambda>a. weight (st ! a)) addrs' ! j)
        = Name_resolve (suffixed t' j) (st ! (sort_key (\<lambda>a. weight (st ! a)) addrs' ! j))"
    proof (cases "(t', addrs') \<in> set rest")
      case True
      let ?x = "sort_key (\<lambda>a. weight (st ! a)) addrs' ! j"
      have "?x \<in> set (sort_key (\<lambda>a. weight (st ! a)) addrs')" using j by (intro nth_mem) simp
      then have xin: "?x \<in> set addrs'" by simp
      then have "?x \<in> set (concat (map snd rest))" using True by force
      then have "?x \<notin> set sorted" using disj set_sorted by auto
      then have "st1 ! ?x = st ! ?x" by (simp add: st1_def resolve_entries_other)
      moreover have "st2 ! ?x = Name_resolve (suffixed t' j) (st1 ! ?x)"
        using IH True j by auto
      ultimately show ?thesis using st' by simp
    next
      case False
      with mem g have eq: "t' = t" "addrs' = addrs" by auto
      let ?x = "sorted ! j"
      have jj: "j < length sorted" using j eq len_sorted by simp
      then have "?x \<in> set sorted" by (rule nth_mem)
      then have "?x \<notin> set (concat (map snd rest))" using disj set_sorted by auto
      then have "st2 ! ?x = st1 ! ?x" using IH by simp
      moreover have "st1 ! ?x = Name_resolve (suffixed t (0 + j)) (st ! ?x)"
        unfolding st1_def using dist_sorted rng_as jj by (rule resolve_entries_nth)
      ultimately show ?thesis using st' eq by (simp add: sorted_def)
    qed
  qed
  from c1 c2 c3 c4 show ?case by blast
qed

lemma register_all_groups:
  "names_groups ns \<Longrightarrow> register_all regs ns = Inr ns' \<Longrightarrow> names_groups ns'"
proof (induction regs arbitrary: ns)
  case Nil then show ?case by simp
next
  case (Cons r rs)
  obtain t u where r: "r = (t, u)" by (cases r)
  from Cons.prems(2) r obtain a ns1 where add: "Names_add t u ns = Inr (a, ns1)"
    and rest: "register_all rs ns1 = Inr ns'"
    by (auto split: sum.splits)
  from names_groups_add[OF Cons.prems(1) add] Cons.IH rest show ?case by blast
qed

lemma names_groups_empty: "names_groups Names_empty"
  by (simp add: names_groups_def Names_empty_def)

lemma filter_le1_unique:
  "length (filter P xs) \<le> 1 \<Longrightarrow> x \<in> set xs \<Longrightarrow> y \<in> set xs \<Longrightarrow> P x \<Longrightarrow> P y \<Longrightarrow> x = y"
proof (induction xs)
  case Nil then show ?case by simp
next
  case (Cons z zs)
  show ?case
  proof (cases "P z")
    case True
    with Cons.prems(1) have "filter P zs = []" by simp
    then have "\<forall>w \<in> set zs. \<not> P w" by (simp add: filter_empty_conv)
    with Cons.prems show ?thesis by auto
  next
    case False
    with Cons show ?thesis by auto
  qed
qed

lemma insort_key_cong_set:
  "\<forall>y \<in> set (x # ys). f y = g y \<Longrightarrow> insort_key f x ys = insort_key g x ys"
  by (induction ys) auto

lemma sort_key_cong_set:
  "\<forall>y \<in> set xs. f y = g y \<Longrightarrow> sort_key f xs = sort_key g xs"
proof (induction xs)
  case Nil then show ?case by simp
next
  case (Cons x xs)
  then have "sort_key f xs = sort_key g xs" by simp
  moreover have "insort_key f x (sort_key g xs) = insort_key g x (sort_key g xs)"
    using Cons.prems by (intro insort_key_cong_set) simp
  ultimately show ?case by simp
qed

lemma Names_resolve_spec:
  assumes inv: "names_inv ns"
  shows "bound (Names_resolve ns) = map (\<lambda>(t, addrs). (t, sort_key (\<lambda>a. weight (store ns ! a)) addrs)) (bound ns)"
    and "length (store (Names_resolve ns)) = length (store ns)"
    and "(t, addrs) \<in> set (bound ns) \<Longrightarrow> j < length addrs \<Longrightarrow>
         store (Names_resolve ns) ! (sort_key (\<lambda>a. weight (store ns ! a)) addrs ! j)
           = Name_resolve (suffixed t j) (store ns ! (sort_key (\<lambda>a. weight (store ns ! a)) addrs ! j))"
proof -
  obtain b' st' where rg: "resolve_groups (bound ns) (store ns) = (b', st')"
    by (cases "resolve_groups (bound ns) (store ns)")
  have d: "distinct (concat (map snd (bound ns)))"
    and r: "\<forall>a \<in> set (concat (map snd (bound ns))). a < length (store ns)"
    using inv by (simp_all add: names_inv_def)
  note spec = resolve_groups_spec[OF d r rg]
  have nr: "Names_resolve ns = ns\<lparr>store := st', bound := b'\<rparr>"
    by (simp add: Names_resolve_def rg)
  show "bound (Names_resolve ns) = map (\<lambda>(t, addrs). (t, sort_key (\<lambda>a. weight (store ns ! a)) addrs)) (bound ns)"
    using spec by (simp add: nr)
  show "length (store (Names_resolve ns)) = length (store ns)"
    using spec by (simp add: nr)
  show "(t, addrs) \<in> set (bound ns) \<Longrightarrow> j < length addrs \<Longrightarrow>
         store (Names_resolve ns) ! (sort_key (\<lambda>a. weight (store ns ! a)) addrs ! j)
           = Name_resolve (suffixed t j) (store ns ! (sort_key (\<lambda>a. weight (store ns ! a)) addrs ! j))"
    using spec by (auto simp: nr)
qed

text \<open>
  Claim C2. After any accepted sequence of registrations, \<^verbatim>\<open>Names.resolve\<close> leaves one
  group per raw name; a group is the registrations of that raw name in registration order,
  stably sorted by usage weight (declaration before import); the entry at index 0 is
  spelled as the raw name, the entry at index 1 as the raw name followed by an underscore,
  and the entry at index \<open>i \<ge> 2\<close> as the raw name, an underscore and \<open>i\<close> in decimal; a
  registration with usage declaration is always spelled as its raw name.
\<close>

theorem resolve_assigns_suffixes:
  assumes acc: "register_all regs Names_empty = Inr ns"
  shows "(\<forall>(raw, addrs) \<in> set (bound (Names_resolve ns)).
            addrs = sort_key (\<lambda>k. usages (snd (regs ! k)))
                   (filter (\<lambda>k. fst (regs ! k) = raw) [0..<length regs]) \<and>
            (\<forall>i < length addrs. spelling (Names_resolve ns) (addrs ! i) =
               Some (if i = 0 then raw else if i = 1 then raw @ ''_''
                     else raw @ ''_'' @ show_nat i))) \<and>
         (\<forall>k < length regs.
            fst (regs ! k) \<in> fst ` set (bound (Names_resolve ns)) \<and>
            (snd (regs ! k) = Declaration \<longrightarrow>
               spelling (Names_resolve ns) k = Some (fst (regs ! k))))"
proof -
  let ?w = "\<lambda>a. weight (store ns ! a)"
  have inv: "names_inv ns" using register_all_inv[OF names_inv_empty acc] .
  have grp: "names_groups ns" using register_all_groups[OF names_groups_empty acc] .
  have st: "store ns = map (\<lambda>(t, u). \<lparr>declared = t, usage = u, resolved = None\<rparr>) regs"
    using register_all_store[OF acc] by (simp add: Names_empty_def)
  have len: "length (store ns) = length regs" by (simp add: st)
  have dec: "\<And>k. k < length regs \<Longrightarrow> declared (store ns ! k) = fst (regs ! k)"
    and us: "\<And>k. k < length regs \<Longrightarrow> usage (store ns ! k) = snd (regs ! k)"
    by (simp_all add: st split_beta)
  note spec = Names_resolve_spec[OF inv]
  have group_eq: "addrs = filter (\<lambda>k. fst (regs ! k) = raw) [0..<length regs]"
    if "(raw, addrs) \<in> set (bound ns)" for raw addrs
  proof -
    from grp that have "addrs = filter (\<lambda>k. declared (store ns ! k) = raw) [0..<length (store ns)]"
      by (auto simp: names_groups_def)
    also have "\<dots> = filter (\<lambda>k. fst (regs ! k) = raw) [0..<length regs]"
      unfolding len by (rule filter_cong) (auto simp: dec)
    finally show ?thesis .
  qed
  have sort_eq: "sort_key ?w addrs = sort_key (\<lambda>k. usages (snd (regs ! k))) addrs"
    if "(raw, addrs) \<in> set (bound ns)" for raw addrs
  proof -
    have "\<forall>k \<in> set addrs. k < length regs" using group_eq[OF that] by auto
    then have "\<forall>k \<in> set addrs. ?w k = usages (snd (regs ! k))"
      by (auto simp: weight_def us)
    then show ?thesis by (rule sort_key_cong_set)
  qed
  have part1: "addrs = sort_key (\<lambda>k. usages (snd (regs ! k)))
                   (filter (\<lambda>k. fst (regs ! k) = raw) [0..<length regs]) \<and>
            (\<forall>i < length addrs. spelling (Names_resolve ns) (addrs ! i) =
               Some (if i = 0 then raw else if i = 1 then raw @ ''_''
                     else raw @ ''_'' @ show_nat i))"
    if mem': "(raw, addrs) \<in> set (bound (Names_resolve ns))" for raw addrs
  proof -
    from mem' spec(1) obtain as0 where mem: "(raw, as0) \<in> set (bound ns)"
      and addrs: "addrs = sort_key ?w as0" by auto
    have a1: "addrs = sort_key (\<lambda>k. usages (snd (regs ! k)))
                   (filter (\<lambda>k. fst (regs ! k) = raw) [0..<length regs])"
      using addrs sort_eq[OF mem] group_eq[OF mem] by simp
    have a2: "spelling (Names_resolve ns) (addrs ! i) =
               Some (if i = 0 then raw else if i = 1 then raw @ ''_''
                     else raw @ ''_'' @ show_nat i)" if i: "i < length addrs" for i
    proof -
      have i0: "i < length as0" using i addrs by simp
      have "addrs ! i \<in> set addrs" using i by (rule nth_mem)
      then have "addrs ! i \<in> set as0" using addrs by simp
      then have d: "declared (store ns ! (addrs ! i)) = raw"
        using inv mem by (auto simp: names_inv_def)
      have "store (Names_resolve ns) ! (addrs ! i) = Name_resolve (suffixed raw i) (store ns ! (addrs ! i))"
        unfolding addrs using mem i0 by (rule spec(3))
      then show ?thesis using d by (cases "i = 0") (auto simp: spelling_def suffixed_def)
    qed
    from a1 a2 show ?thesis by blast
  qed
  have part2: "fst (regs ! k) \<in> fst ` set (bound (Names_resolve ns)) \<and>
            (snd (regs ! k) = Declaration \<longrightarrow>
               spelling (Names_resolve ns) k = Some (fst (regs ! k)))"
    if k: "k < length regs" for k
  proof -
    have "declared (store ns ! k) \<in> fst ` set (bound ns)"
      using grp k len by (simp add: names_groups_def)
    then obtain as0 where mem: "(fst (regs ! k), as0) \<in> set (bound ns)"
      using dec[OF k] by auto
    have keys: "fst ` set (bound (Names_resolve ns)) = fst ` set (bound ns)"
      unfolding spec(1) by force
    have b1: "fst (regs ! k) \<in> fst ` set (bound (Names_resolve ns))"
      unfolding keys using mem by force
    have kin: "k \<in> set as0" using group_eq[OF mem] k by simp
    have b2: "spelling (Names_resolve ns) k = Some (fst (regs ! k))"
      if decl: "snd (regs ! k) = Declaration"
    proof -
      let ?s = "sort_key ?w as0"
      have pos: "0 < length as0" using kin by (cases as0) auto
      then have xin: "?s ! 0 \<in> set ?s" by (intro nth_mem) simp
      have "sorted (map ?w ?s)" by (rule sorted_sort_key)
      moreover have "k \<in> set ?s" using kin by simp
      ultimately have "?w (?s ! 0) \<le> ?w k"
        using pos by (cases ?s) auto
      moreover have "?w k = 0" using us[OF k] decl by (simp add: weight_def)
      ultimately have "usages (usage (store ns ! (?s ! 0))) = 0" by (simp add: weight_def)
      then have ux: "usage (store ns ! (?s ! 0)) = Declaration"
        by (cases "usage (store ns ! (?s ! 0))") auto
      have uk: "usage (store ns ! k) = Declaration" using us[OF k] decl by simp
      have le1: "length (filter (\<lambda>a. usage (store ns ! a) = Declaration) as0) \<le> 1"
        using inv mem by (auto simp: names_inv_def)
      have "?s ! 0 \<in> set as0" using xin by simp
      then have eq: "?s ! 0 = k" using filter_le1_unique[OF le1 _ kin ux uk] by simp
      have "store (Names_resolve ns) ! (?s ! 0) = Name_resolve (suffixed (fst (regs ! k)) 0) (store ns ! (?s ! 0))"
        using mem pos by (rule spec(3))
      then show ?thesis using eq dec[OF k] by (simp add: spelling_def suffixed_def)
    qed
    from b1 b2 show ?thesis by blast
  qed
  from part1 part2 show ?thesis by blast
qed

theorem resolve_assigns_suffixes_witness:
  "register_all [(''Foo'', Import), (''Foo'', Declaration)] Names_empty
     = Inr \<lparr>store = [\<lparr>declared = ''Foo'', usage = Import, resolved = None\<rparr>,
                      \<lparr>declared = ''Foo'', usage = Declaration, resolved = None\<rparr>],
             bound = [(''Foo'', [0, 1])]\<rparr>
   \<and> spelling (Names_resolve
         \<lparr>store = [\<lparr>declared = ''Foo'', usage = Import, resolved = None\<rparr>,
                   \<lparr>declared = ''Foo'', usage = Declaration, resolved = None\<rparr>],
          bound = [(''Foo'', [0, 1])]\<rparr>) 1 = Some ''Foo''"
proof -
  let ?regs = "[(''Foo'', Import), (''Foo'', Declaration)]"
  let ?ns = "\<lparr>store = [\<lparr>declared = ''Foo'', usage = Import, resolved = None\<rparr>,
                      \<lparr>declared = ''Foo'', usage = Declaration, resolved = None\<rparr>],
             bound = [(''Foo'', [0, 1])]\<rparr>"
  have acc: "register_all ?regs Names_empty = Inr ?ns"
    by code_simp
  have "\<forall>k < length ?regs.
            fst (?regs ! k) \<in> fst ` set (bound (Names_resolve ?ns)) \<and>
            (snd (?regs ! k) = Declaration \<longrightarrow>
               spelling (Names_resolve ?ns) k = Some (fst (?regs ! k)))"
    using resolve_assigns_suffixes[OF acc] by (rule conjunct2)
  then have "1 < length ?regs \<longrightarrow> (snd (?regs ! 1) = Declaration \<longrightarrow>
               spelling (Names_resolve ?ns) 1 = Some (fst (?regs ! 1)))"
    by blast
  then have "spelling (Names_resolve ?ns) 1 = Some ''Foo''" by simp
  with acc show ?thesis by simp
qed

section \<open>Registering fresh names\<close>

lemma Names_add_keys:
  assumes "Names_add t u ns = Inr (a, ns')"
  shows "fst ` set (bound ns') = insert t (fst ` set (bound ns))"
proof (cases "map_of (bound ns) t")
  case None
  with assms have "bound ns' = AList.update t [length (store ns)] (bound ns @ [(t, [])])"
    by (auto simp: Names_add_def Names_token_def split: if_splits)
  then show ?thesis by (simp add: set_update_keys)
next
  case (Some g)
  then have "t \<in> fst ` set (bound ns)" by (metis domI dom_map_of_conv_image_fst)
  moreover from assms Some have "bound ns' = AList.update t (g @ [length (store ns)]) (bound ns)"
    by (auto simp: Names_add_def Names_token_def split: if_splits)
  ultimately show ?thesis by (auto simp add: set_update_keys)
qed

lemma register_all_keys:
  "register_all regs ns = Inr ns' \<Longrightarrow> fst ` set (bound ns') = fst ` set (bound ns) \<union> fst ` set regs"
proof (induction regs arbitrary: ns)
  case Nil then show ?case by simp
next
  case (Cons r rs)
  obtain t u where r: "r = (t, u)" by (cases r)
  from Cons.prems r obtain a ns1 where add: "Names_add t u ns = Inr (a, ns1)"
    and rest: "register_all rs ns1 = Inr ns'"
    by (auto split: sum.splits)
  from Names_add_keys[OF add] Cons.IH[OF rest] r show ?case by auto
qed

section \<open>Imports of one raw name\<close>

lemma sort_key_two_equal: "f a = f b \<Longrightarrow> sort_key f [a, b] = [a, b]"
  by simp

lemma Names_add_import:
  "\<exists>ns'. Names_add t Import ns = Inr (length (store ns), ns') \<and>
         store ns' = store ns @ [\<lparr>declared = t, usage = Import, resolved = None\<rparr>] \<and>
         group_of ns' t = group_of ns t @ [length (store ns)] \<and>
         (\<forall>t'. t' \<noteq> t \<longrightarrow> group_of ns' t' = group_of ns t')"
proof (cases "map_of (bound ns) t")
  case None
  then show ?thesis
    by (auto simp add: Names_add_def Names_token_def isConflict_def list_ex_iff group_of_def
        update_conv' map_add_def split: option.splits)
next
  case (Some g)
  then show ?thesis
    by (simp add: Names_add_def Names_token_def isConflict_def list_ex_iff group_of_def
        update_conv')
qed

lemma named_import_append:
  "named_import ns imp \<Longrightarrow> store ns' = store ns @ xs \<Longrightarrow> named_import ns' imp"
  unfolding named_import_def by (auto simp: nth_append)

lemma raw_name_name [simp]: "raw_name (imp\<lparr>name := a\<rparr>) = raw_name imp"
  by (simp add: raw_name_def split: option.splits)

lemma apply_members_spec:
  "\<exists>ms' ns'. apply_members ms ns = Inr (ms', ns') \<and>
     map fst ms' = map fst ms \<and>
     map (\<lambda>x. raw_name (snd x)) ms' = map (\<lambda>x. raw_name (snd x)) ms \<and>
     (\<exists>xs. store ns' = store ns @ xs) \<and>
     (\<forall>x \<in> set ms'. named_import ns' (snd x)) \<and>
     (names_inv ns \<longrightarrow> names_inv ns') \<and>
     (\<forall>N. group_of ns' N =
          group_of ns N @ map (\<lambda>x. the (name (snd x))) (filter (\<lambda>x. raw_name (snd x) = N) ms'))"
proof (induction ms arbitrary: ns)
  case Nil
  then show ?case by simp
next
  case (Cons x ms)
  obtain k imp where x: "x = (k, imp)" by (cases x)
  from Names_add_import[of "raw_name imp" ns] obtain ns1 where
    add: "Names_add (raw_name imp) Import ns = Inr (length (store ns), ns1)"
    and st1: "store ns1 = store ns @ [\<lparr>declared = raw_name imp, usage = Import, resolved = None\<rparr>]"
    and g1: "group_of ns1 (raw_name imp) = group_of ns (raw_name imp) @ [length (store ns)]"
    and g2: "\<forall>t'. t' \<noteq> raw_name imp \<longrightarrow> group_of ns1 t' = group_of ns t'"
    by blast
  from Cons.IH[of ns1] obtain ms' ns' xs where
    ap: "apply_members ms ns1 = Inr (ms', ns')"
    and k: "map fst ms' = map fst ms"
    and r: "map (\<lambda>x. raw_name (snd x)) ms' = map (\<lambda>x. raw_name (snd x)) ms"
    and st: "store ns' = store ns1 @ xs"
    and nm: "\<forall>x \<in> set ms'. named_import ns' (snd x)"
    and inv: "names_inv ns1 \<longrightarrow> names_inv ns'"
    and grp: "\<forall>N. group_of ns' N =
          group_of ns1 N @ map (\<lambda>x. the (name (snd x))) (filter (\<lambda>x. raw_name (snd x) = N) ms')"
    by blast
  let ?i = "imp\<lparr>name := Some (length (store ns))\<rparr>"
  have res: "apply_members (x # ms) ns = Inr ((k, ?i) # ms', ns')"
    using add ap by (simp add: x)
  have n0: "named_import ns1 ?i"
    by (simp add: named_import_def st1)
  have n1: "named_import ns' ?i" using named_import_append[OF n0 st] .
  have inv': "names_inv ns \<longrightarrow> names_inv ns'"
    using names_inv_add[OF _ add] inv by blast
  have grp': "group_of ns' N =
          group_of ns N @ map (\<lambda>x. the (name (snd x))) (filter (\<lambda>x. raw_name (snd x) = N) ((k, ?i) # ms'))" for N
    using grp g1 g2 by (cases "N = raw_name imp") auto
  show ?case
    unfolding res using k r st st1 nm n1 inv' grp' by (auto simp: x)
qed

lemma table_imports_Cons:
  "table_imports \<lparr>modules = (urn, md) # mods\<rparr> =
     flat_members urn (members md) @ table_imports \<lparr>modules = mods\<rparr>"
  by (simp add: table_imports_def flat_members_def)

lemma table_imports_Nil [simp]: "table_imports \<lparr>modules = []\<rparr> = []"
  by (simp add: table_imports_def)

lemma flat_members_filter:
  "map (\<lambda>x. the (name (snd x))) (filter (\<lambda>x. raw_name (snd x) = N) (flat_members urn ms)) =
   map (\<lambda>x. the (name (snd x))) (filter (\<lambda>x. raw_name (snd x) = N) ms)"
  by (induction ms) (auto simp: flat_members_def)

lemma flat_members_zip:
  "map (\<lambda>x. (fst x, raw_name (snd x))) (flat_members urn ms) =
   map (\<lambda>p. ((urn, fst p), snd p)) (zip (map fst ms) (map (\<lambda>x. raw_name (snd x)) ms))"
  by (induction ms) (simp_all add: flat_members_def split_beta)

lemma flat_members_keys:
  "map fst ms' = map fst ms \<Longrightarrow>
   map (\<lambda>x. raw_name (snd x)) ms' = map (\<lambda>x. raw_name (snd x)) ms \<Longrightarrow>
   map (\<lambda>x. (fst x, raw_name (snd x))) (flat_members urn ms') =
   map (\<lambda>x. (fst x, raw_name (snd x))) (flat_members urn ms)"
  unfolding flat_members_zip by simp

lemma apply_modules_spec:
  "\<exists>mods' ns'. apply_modules mods ns = Inr (mods', ns') \<and>
     map fst mods' = map fst mods \<and>
     ((\<forall>x \<in> set mods. distinct (map fst (members (snd x)))) \<longrightarrow>
      (\<forall>x \<in> set mods'. distinct (map fst (members (snd x))))) \<and>
     map (\<lambda>x. (fst x, raw_name (snd x))) (table_imports \<lparr>modules = mods'\<rparr>) =
       map (\<lambda>x. (fst x, raw_name (snd x))) (table_imports \<lparr>modules = mods\<rparr>) \<and>
     (\<exists>xs. store ns' = store ns @ xs) \<and>
     (\<forall>x \<in> set (table_imports \<lparr>modules = mods'\<rparr>). named_import ns' (snd x)) \<and>
     (names_inv ns \<longrightarrow> names_inv ns') \<and>
     (\<forall>N. group_of ns' N =
          group_of ns N @ map (\<lambda>x. the (name (snd x)))
            (filter (\<lambda>x. raw_name (snd x) = N) (table_imports \<lparr>modules = mods'\<rparr>)))"
proof (induction mods arbitrary: ns)
  case Nil
  then show ?case by simp
next
  case (Cons x mods)
  obtain urn md where x: "x = (urn, md)" by (cases x)
  from apply_members_spec[of "members md" ns] obtain ms' where "\<exists>ns1. apply_members (members md) ns = Inr (ms', ns1) \<and>
     map fst ms' = map fst (members md) \<and>
     map (\<lambda>x. raw_name (snd x)) ms' = map (\<lambda>x. raw_name (snd x)) (members md) \<and>
     (\<exists>xs. store ns1 = store ns @ xs) \<and>
     (\<forall>x \<in> set ms'. named_import ns1 (snd x)) \<and>
     (names_inv ns \<longrightarrow> names_inv ns1) \<and>
     (\<forall>N. group_of ns1 N =
          group_of ns N @ map (\<lambda>x. the (name (snd x))) (filter (\<lambda>x. raw_name (snd x) = N) ms'))" ..
  then obtain ns1 where H1: "apply_members (members md) ns = Inr (ms', ns1) \<and>
     map fst ms' = map fst (members md) \<and>
     map (\<lambda>x. raw_name (snd x)) ms' = map (\<lambda>x. raw_name (snd x)) (members md) \<and>
     (\<exists>xs. store ns1 = store ns @ xs) \<and>
     (\<forall>x \<in> set ms'. named_import ns1 (snd x)) \<and>
     (names_inv ns \<longrightarrow> names_inv ns1) \<and>
     (\<forall>N. group_of ns1 N =
          group_of ns N @ map (\<lambda>x. the (name (snd x))) (filter (\<lambda>x. raw_name (snd x) = N) ms'))" ..
  from H1 have am: "apply_members (members md) ns = Inr (ms', ns1)"
    and k1: "map fst ms' = map fst (members md)"
    and r1: "map (\<lambda>x. raw_name (snd x)) ms' = map (\<lambda>x. raw_name (snd x)) (members md)"
    and st1': "\<exists>xs. store ns1 = store ns @ xs"
    and nm1: "\<forall>x \<in> set ms'. named_import ns1 (snd x)"
    and inv1: "names_inv ns \<longrightarrow> names_inv ns1"
    and g1: "\<forall>N. group_of ns1 N =
          group_of ns N @ map (\<lambda>x. the (name (snd x))) (filter (\<lambda>x. raw_name (snd x) = N) ms')"
    by blast+
  from st1' obtain xs1 where st1: "store ns1 = store ns @ xs1" ..
  from Cons.IH[of ns1] obtain mods' where "\<exists>ns'. apply_modules mods ns1 = Inr (mods', ns') \<and>
     map fst mods' = map fst mods \<and>
     ((\<forall>x \<in> set mods. distinct (map fst (members (snd x)))) \<longrightarrow>
      (\<forall>x \<in> set mods'. distinct (map fst (members (snd x))))) \<and>
     map (\<lambda>x. (fst x, raw_name (snd x))) (table_imports \<lparr>modules = mods'\<rparr>) =
       map (\<lambda>x. (fst x, raw_name (snd x))) (table_imports \<lparr>modules = mods\<rparr>) \<and>
     (\<exists>xs. store ns' = store ns1 @ xs) \<and>
     (\<forall>x \<in> set (table_imports \<lparr>modules = mods'\<rparr>). named_import ns' (snd x)) \<and>
     (names_inv ns1 \<longrightarrow> names_inv ns') \<and>
     (\<forall>N. group_of ns' N =
          group_of ns1 N @ map (\<lambda>x. the (name (snd x)))
            (filter (\<lambda>x. raw_name (snd x) = N) (table_imports \<lparr>modules = mods'\<rparr>)))" ..
  then obtain ns' where H2: "apply_modules mods ns1 = Inr (mods', ns') \<and>
     map fst mods' = map fst mods \<and>
     ((\<forall>x \<in> set mods. distinct (map fst (members (snd x)))) \<longrightarrow>
      (\<forall>x \<in> set mods'. distinct (map fst (members (snd x))))) \<and>
     map (\<lambda>x. (fst x, raw_name (snd x))) (table_imports \<lparr>modules = mods'\<rparr>) =
       map (\<lambda>x. (fst x, raw_name (snd x))) (table_imports \<lparr>modules = mods\<rparr>) \<and>
     (\<exists>xs. store ns' = store ns1 @ xs) \<and>
     (\<forall>x \<in> set (table_imports \<lparr>modules = mods'\<rparr>). named_import ns' (snd x)) \<and>
     (names_inv ns1 \<longrightarrow> names_inv ns') \<and>
     (\<forall>N. group_of ns' N =
          group_of ns1 N @ map (\<lambda>x. the (name (snd x)))
            (filter (\<lambda>x. raw_name (snd x) = N) (table_imports \<lparr>modules = mods'\<rparr>)))" ..
  from H2 have ap: "apply_modules mods ns1 = Inr (mods', ns')"
    and k: "map fst mods' = map fst mods"
    and d: "(\<forall>x \<in> set mods. distinct (map fst (members (snd x)))) \<longrightarrow>
      (\<forall>x \<in> set mods'. distinct (map fst (members (snd x))))"
    and r: "map (\<lambda>x. (fst x, raw_name (snd x))) (table_imports \<lparr>modules = mods'\<rparr>) =
       map (\<lambda>x. (fst x, raw_name (snd x))) (table_imports \<lparr>modules = mods\<rparr>)"
    and st': "\<exists>xs. store ns' = store ns1 @ xs"
    and nm: "\<forall>x \<in> set (table_imports \<lparr>modules = mods'\<rparr>). named_import ns' (snd x)"
    and inv: "names_inv ns1 \<longrightarrow> names_inv ns'"
    and g: "\<forall>N. group_of ns' N =
          group_of ns1 N @ map (\<lambda>x. the (name (snd x)))
            (filter (\<lambda>x. raw_name (snd x) = N) (table_imports \<lparr>modules = mods'\<rparr>))"
    by blast+
  from st' obtain xs where st: "store ns' = store ns1 @ xs" ..
  let ?md = "md\<lparr>members := ms'\<rparr>"
  have res: "apply_modules (x # mods) ns = Inr ((urn, ?md) # mods', ns')"
    using am ap by (simp add: x)
  have c1: "map fst ((urn, ?md) # mods') = map fst (x # mods)" using k by (simp add: x)
  have c2: "(\<forall>y \<in> set (x # mods). distinct (map fst (members (snd y)))) \<longrightarrow>
      (\<forall>y \<in> set ((urn, ?md) # mods'). distinct (map fst (members (snd y))))"
    using d k1 by (auto simp: x)
  have c3: "map (\<lambda>x. (fst x, raw_name (snd x))) (table_imports \<lparr>modules = (urn, ?md) # mods'\<rparr>) =
       map (\<lambda>x. (fst x, raw_name (snd x))) (table_imports \<lparr>modules = x # mods\<rparr>)"
    using r flat_members_keys[OF k1 r1, of urn] by (simp add: x table_imports_Cons)
  have c4: "\<exists>ys. store ns' = store ns @ ys" using st st1 by simp
  have c5: "\<forall>y \<in> set (table_imports \<lparr>modules = (urn, ?md) # mods'\<rparr>). named_import ns' (snd y)"
  proof
    fix y assume "y \<in> set (table_imports \<lparr>modules = (urn, ?md) # mods'\<rparr>)"
    then consider "y \<in> set (flat_members urn ms')" | "y \<in> set (table_imports \<lparr>modules = mods'\<rparr>)"
      by (auto simp: table_imports_Cons)
    then show "named_import ns' (snd y)"
    proof cases
      case 1
      then have "snd y \<in> snd ` set ms'" by (force simp: flat_members_def)
      then have "named_import ns1 (snd y)" using nm1 by auto
      then show ?thesis using st by (rule named_import_append)
    next
      case 2 then show ?thesis using nm by blast
    qed
  qed
  have c6: "names_inv ns \<longrightarrow> names_inv ns'" using inv1 inv by blast
  have c7: "group_of ns' N =
          group_of ns N @ map (\<lambda>x. the (name (snd x)))
            (filter (\<lambda>x. raw_name (snd x) = N) (table_imports \<lparr>modules = (urn, ?md) # mods'\<rparr>))" for N
    using g g1 by (simp add: table_imports_Cons flat_members_filter)
  show ?case
    by (rule exI[of _ "(urn, ?md) # mods'"], rule exI[of _ ns'])
       (intro conjI allI; (rule res c1 c2 c3 c4 c5 c6 c7))
qed

lemma Imports_get_table:
  assumes "distinct (map fst mods)"
    and "\<forall>x \<in> set mods. distinct (map fst (members (snd x)))"
    and "(key, imp) \<in> set (table_imports \<lparr>modules = mods\<rparr>)"
  shows "Imports_get \<lparr>modules = mods\<rparr> key = Some imp"
proof -
  from assms(3) obtain urn md k where md: "(urn, md) \<in> set mods"
    and k: "(k, imp) \<in> set (members md)" and key: "key = (urn, k)"
    by (auto simp: table_imports_def)
  have "map_of mods urn = Some md" using assms(1) md by (rule map_of_is_SomeI)
  moreover have "distinct (map fst (members md))" using assms(2) md by force
  then have "map_of (members md) k = Some imp" using k by (rule map_of_is_SomeI)
  ultimately show ?thesis by (simp add: Imports_get_def key)
qed

lemma filter_two_keys:
  assumes "map (\<lambda>x. (fst x, f (snd x))) zs' = map (\<lambda>x. (fst x, f (snd x))) zs"
    and "filter (\<lambda>x. f (snd x) = N) zs = [(k1, i1), (k2, i2)]"
  shows "\<exists>j1 j2. filter (\<lambda>x. f (snd x) = N) zs' = [(k1, j1), (k2, j2)]"
proof -
  let ?g = "\<lambda>x. (fst x, f (snd x))"
  have "map ?g (filter (\<lambda>x. f (snd x) = N) zs') = filter (\<lambda>q. snd q = N) (map ?g zs')"
    by (simp add: filter_map comp_def)
  also have "\<dots> = filter (\<lambda>q. snd q = N) (map ?g zs)" by (simp add: assms(1))
  also have "\<dots> = map ?g (filter (\<lambda>x. f (snd x) = N) zs)"
    by (simp add: filter_map comp_def)
  also have "\<dots> = [(k1, f i1), (k2, f i2)]" by (simp add: assms(2))
  finally have "map ?g (filter (\<lambda>x. f (snd x) = N) zs') = [(k1, f i1), (k2, f i2)]" .
  then obtain y1 y2 where "filter (\<lambda>x. f (snd x) = N) zs' = [y1, y2]" "fst y1 = k1" "fst y2 = k2"
    by (auto simp: map_eq_Cons_conv)
  then show ?thesis by (cases y1; cases y2) auto
qed

lemma group_of_fresh:
  assumes "t \<notin> fst ` set (bound ns)"
  shows "group_of ns t = []"
proof -
  have "map_of (bound ns) t = None" using assms by (simp add: map_of_eq_None_iff)
  then show ?thesis by (simp add: group_of_def)
qed

lemma group_of_mem: "group_of ns t = g \<Longrightarrow> g \<noteq> [] \<Longrightarrow> (t, g) \<in> set (bound ns)"
  by (auto simp: group_of_def split: option.splits dest: map_of_SomeD)

text \<open>
  Claim C4 (amended). In a module that registers the raw name \<open>N\<close> nowhere else and whose
  import table holds exactly two imports of raw name \<open>N\<close>, resolution spells them \<open>N\<close>
  and \<open>N_\<close>: the import that comes first in the table (the sources in the order in which
  the map holds them, the members of a source likewise) keeps \<open>N\<close> and the other becomes
  \<open>N_\<close>.
\<close>

theorem first_registered_import_keeps_raw_name:
  assumes acc: "register_all regs Names_empty = Inr ns0"
    and fresh: "N \<notin> fst ` set regs"
    and wf1: "distinct (map fst (modules imps))"
    and wf2: "\<forall>x \<in> set (modules imps). distinct (map fst (members (snd x)))"
    and two: "filter (\<lambda>x. raw_name (snd x) = N) (table_imports imps) = [(k1, i1), (k2, i2)]"
  shows "\<exists>m. resolve_imports \<lparr>path = p, names = ns0, imports' = imps\<rparr> = Inr m \<and>
             Import_binding k1 m = Inr N \<and>
             Import_binding k2 m = Inr (N @ ''_'')"
proof -
  have imps: "imps = \<lparr>modules = modules imps\<rparr>" by simp
  from apply_modules_spec[of "modules imps" ns0] obtain mods' where
    "\<exists>ns1. apply_modules (modules imps) ns0 = Inr (mods', ns1) \<and>
     map fst mods' = map fst (modules imps) \<and>
     ((\<forall>x \<in> set (modules imps). distinct (map fst (members (snd x)))) \<longrightarrow>
      (\<forall>x \<in> set mods'. distinct (map fst (members (snd x))))) \<and>
     map (\<lambda>x. (fst x, raw_name (snd x))) (table_imports \<lparr>modules = mods'\<rparr>) =
       map (\<lambda>x. (fst x, raw_name (snd x))) (table_imports \<lparr>modules = modules imps\<rparr>) \<and>
     (\<exists>xs. store ns1 = store ns0 @ xs) \<and>
     (\<forall>x \<in> set (table_imports \<lparr>modules = mods'\<rparr>). named_import ns1 (snd x)) \<and>
     (names_inv ns0 \<longrightarrow> names_inv ns1) \<and>
     (\<forall>N. group_of ns1 N =
          group_of ns0 N @ map (\<lambda>x. the (name (snd x)))
            (filter (\<lambda>x. raw_name (snd x) = N) (table_imports \<lparr>modules = mods'\<rparr>)))" ..
  then obtain ns1 where H:
    "apply_modules (modules imps) ns0 = Inr (mods', ns1) \<and>
     map fst mods' = map fst (modules imps) \<and>
     ((\<forall>x \<in> set (modules imps). distinct (map fst (members (snd x)))) \<longrightarrow>
      (\<forall>x \<in> set mods'. distinct (map fst (members (snd x))))) \<and>
     map (\<lambda>x. (fst x, raw_name (snd x))) (table_imports \<lparr>modules = mods'\<rparr>) =
       map (\<lambda>x. (fst x, raw_name (snd x))) (table_imports \<lparr>modules = modules imps\<rparr>) \<and>
     (\<exists>xs. store ns1 = store ns0 @ xs) \<and>
     (\<forall>x \<in> set (table_imports \<lparr>modules = mods'\<rparr>). named_import ns1 (snd x)) \<and>
     (names_inv ns0 \<longrightarrow> names_inv ns1) \<and>
     (\<forall>N. group_of ns1 N =
          group_of ns0 N @ map (\<lambda>x. the (name (snd x)))
            (filter (\<lambda>x. raw_name (snd x) = N) (table_imports \<lparr>modules = mods'\<rparr>)))" ..
  from H have ap: "apply_modules (modules imps) ns0 = Inr (mods', ns1)"
    and k: "map fst mods' = map fst (modules imps)"
    and d: "(\<forall>x \<in> set (modules imps). distinct (map fst (members (snd x)))) \<longrightarrow>
      (\<forall>x \<in> set mods'. distinct (map fst (members (snd x))))"
    and r: "map (\<lambda>x. (fst x, raw_name (snd x))) (table_imports \<lparr>modules = mods'\<rparr>) =
       map (\<lambda>x. (fst x, raw_name (snd x))) (table_imports \<lparr>modules = modules imps\<rparr>)"
    and nm: "\<forall>x \<in> set (table_imports \<lparr>modules = mods'\<rparr>). named_import ns1 (snd x)"
    and inv: "names_inv ns0 \<longrightarrow> names_inv ns1"
    and g: "\<forall>N. group_of ns1 N =
          group_of ns0 N @ map (\<lambda>x. the (name (snd x)))
            (filter (\<lambda>x. raw_name (snd x) = N) (table_imports \<lparr>modules = mods'\<rparr>))"
    by blast+
  let ?zs' = "table_imports \<lparr>modules = mods'\<rparr>"
  have two': "filter (\<lambda>x. raw_name (snd x) = N) (table_imports \<lparr>modules = modules imps\<rparr>)
                = [(k1, i1), (k2, i2)]"
    using two by (simp add: table_imports_def)
  from filter_two_keys[OF r two'] obtain j1 j2 where
    f': "filter (\<lambda>x. raw_name (snd x) = N) ?zs' = [(k1, j1), (k2, j2)]" by blast
  have in1: "(k1, j1) \<in> set ?zs'" and rn1: "raw_name j1 = N"
    using filter_eq_ConsD[OF f'] by auto
  have "(k2, j2) \<in> set (filter (\<lambda>x. raw_name (snd x) = N) ?zs')" unfolding f' by simp
  then have in2: "(k2, j2) \<in> set ?zs'" and rn2: "raw_name j2 = N" by auto
  from nm in1 rn1 obtain a1 where a1: "name j1 = Some a1" "a1 < length (store ns1)"
    "store ns1 ! a1 = \<lparr>declared = N, usage = Import, resolved = None\<rparr>"
    by (force simp: named_import_def)
  from nm in2 rn2 obtain a2 where a2: "name j2 = Some a2" "a2 < length (store ns1)"
    "store ns1 ! a2 = \<lparr>declared = N, usage = Import, resolved = None\<rparr>"
    by (force simp: named_import_def)
  have inv0: "names_inv ns0" using register_all_inv[OF names_inv_empty acc] .
  then have inv1: "names_inv ns1" using inv by blast
  have keys: "N \<notin> fst ` set (bound ns0)"
    using register_all_keys[OF acc] fresh by (simp add: Names_empty_def)
  have grp: "group_of ns1 N = [a1, a2]"
    using g f' a1(1) a2(1) group_of_fresh[OF keys] by simp
  have mem: "(N, [a1, a2]) \<in> set (bound ns1)" using group_of_mem[OF grp] by simp
  let ?w = "\<lambda>a. weight (store ns1 ! a)"
  have srt: "sort_key ?w [a1, a2] = [a1, a2]"
    by (rule sort_key_two_equal) (simp add: a1 a2 weight_def)
  have e1: "store (Names_resolve ns1) ! a1 = Name_resolve (suffixed N 0) (store ns1 ! a1)"
    using Names_resolve_spec(3)[OF inv1 mem, of 0] unfolding srt by simp
  have e2: "store (Names_resolve ns1) ! a2 = Name_resolve (suffixed N 1) (store ns1 ! a2)"
    using Names_resolve_spec(3)[OF inv1 mem, of 1] unfolding srt by simp
  let ?m = "\<lparr>path = p, names = Names_resolve ns1, imports' = \<lparr>modules = mods'\<rparr>\<rparr>"
  have res: "resolve_imports \<lparr>path = p, names = ns0, imports' = imps\<rparr> = Inr ?m"
    using ap by (simp add: resolve_imports_def Imports_apply_def)
  have d1: "distinct (map fst mods')" using wf1 k by simp
  have d2: "\<forall>x \<in> set mods'. distinct (map fst (members (snd x)))" using d wf2 by blast
  have g1: "Imports_get \<lparr>modules = mods'\<rparr> k1 = Some j1"
    using Imports_get_table[OF d1 d2 in1] .
  have g2: "Imports_get \<lparr>modules = mods'\<rparr> k2 = Some j2"
    using Imports_get_table[OF d1 d2 in2] .
  have t1: "Import_binding k1 ?m = Inr N"
    using e1 by (simp add: Import_binding_def g1 Import_token_def a1 Name_token_def suffixed_def)
  have t2: "Import_binding k2 ?m = Inr (N @ ''_'')"
    using e2 by (simp add: Import_binding_def g2 Import_token_def a2 Name_token_def suffixed_def)
  from res t1 t2 show ?thesis by blast
qed

theorem first_registered_import_keeps_raw_name_witness:
  "\<exists>m. resolve_imports
          \<lparr>path = ''v1.ts'',
           names = \<lparr>store = [\<lparr>declared = ''M'', usage = Declaration, resolved = None\<rparr>],
                    bound = [(''M'', [0])]\<rparr>,
           imports' = imports' (import_all
              [(Lib ''a'' None, ''N'', None),
               (Lib ''a'' None, ''Other'', type_only),
               (Local ''b.ts'', ''M'', Some \<lparr>opt_as = Some ''N'', opt_type = None\<rparr>)]
              (Module_new ''v1.ts''))\<rparr> = Inr m \<and>
       Import_binding (''kure:lib:a'', ''N'') m = Inr ''N'' \<and>
       Import_binding (''/b.ts'', ''M'') m = Inr (''N'' @ ''_'')"
proof -
  let ?imps = "imports' (import_all
              [(Lib ''a'' None, ''N'', None),
               (Lib ''a'' None, ''Other'', type_only),
               (Local ''b.ts'', ''M'', Some \<lparr>opt_as = Some ''N'', opt_type = None\<rparr>)]
              (Module_new ''v1.ts''))"
  have a: "register_all [(''M'', Declaration)] Names_empty =
        Inr \<lparr>store = [\<lparr>declared = ''M'', usage = Declaration, resolved = None\<rparr>],
             bound = [(''M'', [0])]\<rparr>"
    by code_simp
  have b: "''N'' \<notin> fst ` set [(''M'', Declaration)]" by simp
  have c: "distinct (map fst (modules ?imps))" by code_simp
  have d: "\<forall>x \<in> set (modules ?imps). distinct (map fst (members (snd x)))" by code_simp
  have e: "filter (\<lambda>x. raw_name (snd x) = ''N'') (table_imports ?imps) =
           [((''kure:lib:a'', ''N''), \<lparr>member = ''N'', as = None, type = False, name = None\<rparr>),
            ((''/b.ts'', ''M''), \<lparr>member = ''M'', as = Some ''N'', type = False, name = None\<rparr>)]"
    by code_simp
  show ?thesis
    using first_registered_import_keeps_raw_name[OF a b c d e] .
qed

text \<open>
  The claim as stated fails: for the two sources \<open>a\<close> and \<open>b\<close> of this example, the
  import from \<open>a\<close> is spelled \<open>N\<close> when \<open>a\<close> is registered first and \<open>N_\<close> when \<open>b\<close>
  is registered first.
\<close>

theorem registration_order_decides_spelling:
  "(case resolve_imports (import_all [(Lib ''a'' None, ''N'', None), (Lib ''b'' None, ''N'', None)]
            (Module_new ''v1.ts'')) of
      Inl e \<Rightarrow> Inl e | Inr m \<Rightarrow> Import_binding (Import_urn (Lib ''a'' None), ''N'') m) = Inr ''N''
   \<and>
   (case resolve_imports (import_all [(Lib ''b'' None, ''N'', None), (Lib ''a'' None, ''N'', None)]
            (Module_new ''v1.ts'')) of
      Inl e \<Rightarrow> Inl e | Inr m \<Rightarrow> Import_binding (Import_urn (Lib ''a'' None), ''N'') m) = Inr ''N_''"
  by code_simp

section \<open>Merging repeated imports\<close>

text \<open>
  Claim C5. A later \<^verbatim>\<open>use\<close> of the same source and member that passes no options object
  asks for a value import (the constructor gives such a call \<open>type = false\<close>), yet the merge
  is skipped and the import stays type-only; the same call with an empty options object
  does make it a value import.
\<close>

theorem use_without_options_keeps_type_only:
  "Imports_get
     (imports' (import_all
        [(Lib ''schema'' None, ''factory'', Some \<lparr>opt_as = None, opt_type = Some True\<rparr>),
         (Lib ''schema'' None, ''factory'', None)] (Module_new ''v1.ts'')))
     (''kure:lib:schema'', ''factory'')
   = Some \<lparr>member = ''factory'', as = None, type = True, name = None\<rparr>
   \<and>
   Imports_get
     (imports' (import_all
        [(Lib ''schema'' None, ''factory'', Some \<lparr>opt_as = None, opt_type = Some True\<rparr>),
         (Lib ''schema'' None, ''factory'', Some \<lparr>opt_as = None, opt_type = None\<rparr>)]
        (Module_new ''v1.ts'')))
     (''kure:lib:schema'', ''factory'')
   = Some \<lparr>member = ''factory'', as = None, type = False, name = None\<rparr>
   \<and>
   Imports_get
     (imports' (import_all [(Lib ''schema'' None, ''factory'', None)] (Module_new ''v1.ts'')))
     (''kure:lib:schema'', ''factory'')
   = Some \<lparr>member = ''factory'', as = None, type = False, name = None\<rparr>"
  by code_simp

section \<open>Rendering of members and paths\<close>

lemma ebind_simps [simp]:
  "ebind (Inl e) f = Inl e"
  "ebind (Inr a) f = f a"
  by (simp_all add: ebind_def)

text \<open>
  Claim C3. The registrations a module makes for a declaration \<open>Foo_\<close>, a declaration
  \<open>Foo\<close> and an import \<open>Foo\<close> are accepted, and resolution spells both the declaration
  \<open>Foo_\<close> and the import \<open>Foo\<close> as \<open>Foo_\<close>: the spellings are not pairwise distinct. A
  schema that declares \<open>Foo_\<close> and \<open>Foo\<close> and refers to the \<open>Foo\<close> of another package
  makes these registrations, and the module generated binds \<open>Foo_\<close> twice.
\<close>

theorem suffixed_import_collides_with_declaration:
  "(case register_all [(''Foo_'', Declaration), (''Foo'', Declaration), (''Foo'', Import)]
           Names_empty of
      Inl e \<Rightarrow> []
    | Inr ns \<Rightarrow> map (spelling (Names_resolve ns)) [0, 1, 2])
   = [Some ''Foo_'', Some ''Foo'', Some ''Foo_'']
   \<and>
   emitVersion example_host
     (example_schema [(''other'', ''1.0'')]
        [\<lparr>description = None, deprecated = False, d_name = ''Foo_'', d_value = StringType None\<rparr>,
         \<lparr>description = None, deprecated = False, d_name = ''Foo'',
          d_value = ObjectType [Property ''x'' True (ReferenceType (other_ref ''Foo'')) no_meta] None\<rparr>])
     Deno
   = Inr (text_lines
       [''import type { Foo as Foo_ } from '' @ quoted ''https://kure.sh/api/other@1.0/v1.ts'' @ '';'',
        [],
        ''export type APIVersion = '' @ quoted ''example.com/v1'' @ '';'',
        ''export const apiVersion: APIVersion = '' @ quoted ''example.com/v1'' @ '';'',
        [],
        ''export type Foo_ = string;'',
        [],
        ''export interface Foo {'',
        ''  x: Foo_;'',
        ''}''])"
  by code_simp

text \<open>
  Claim C1 (amended). A property renders as its doc block, two spaces, its name (quoted
  when it is not an identifier), a question mark when it is not required, a colon and the
  text \<open>T\<close> of its value type: \<open>name: T;\<close> when required and \<open>name?: T;\<close> when not. The
  required flag adds no \<open>| null\<close>; that suffix belongs to the text of an
  \<open>optional\<close>-wrapped type, which renders as \<open>T | null\<close>.
\<close>

theorem property_member_text:
  assumes "gen_type t False = Inr valueType"
    and "valueType m = Inr (v, m1)"
    and "v ctx = Inr T"
  shows "(\<exists>g r. gen_property (Property nm req t meta) = Inr g \<and> g m = Inr (r, m1) \<and>
            r ctx = Inr (doc meta 1 @ ''  '' @
                         (if is_identifier nm then nm else JSON_stringify nm) @
                         (if req then [] else ''?'') @ '': '' @ T @ '';'')) \<and>
         (\<exists>g r. gen_type (OptionalType t) False = Inr g \<and> g m = Inr (r, m1) \<and>
            r ctx = Inr (T @ '' | null''))"
  using assms by (simp add: property_generator_def optional_generator_def)

theorem property_member_text_witness:
  "\<exists>g r. gen_property (Property ''size'' False IntegerType no_meta) = Inr g \<and>
         g (Module_new ''v1.ts'') = Inr (r, Module_new ''v1.ts'') \<and>
         r (example_context [] Deno) = Inr ''  size?: number;''"
proof -
  have a: "gen_type IntegerType False = Inr gen_number" by simp
  have b: "gen_number (Module_new ''v1.ts'') = Inr (\<lambda>ctx. Inr ''number'', Module_new ''v1.ts'')"
    by (simp add: gen_number_def)
  have c: "(\<lambda>ctx. Inr ''number'') (example_context [] Deno) = (Inr ''number'' :: error + string)"
    by simp
  have d: "doc no_meta 1 @ ''  '' @
            (if is_identifier ''size'' then ''size'' else JSON_stringify ''size'') @
            (if False then [] else ''?'') @ '': '' @ ''number'' @ '';'' = ''  size?: number;''"
    by code_simp
  from property_member_text[OF a b c, of "''size''" False no_meta]
  show ?thesis unfolding d by blast
qed

text \<open>
  The claim as stated fails: an optional property whose value is not an \<open>optional\<close>-wrapped
  type renders without \<open>| null\<close>.
\<close>

theorem optional_property_without_null:
  "ebind (gen_property (Property ''size'' False IntegerType no_meta))
     (\<lambda>g. Module_render example_host [g] (example_context [] Deno)) = Inr ''  size?: number;''"
  by code_simp

text \<open>
  Claim C8 (amended). Under the engine \<open>Deno\<close> the path of an \<open>api\<close> import is
  \<^verbatim>\<open>https://kure.sh/api/<pkg>@<version>/<path or mod.ts>\<close> with the version found under
  the package name in the dependency map of the context, and without \<^verbatim>\<open>@<version>\<close> when
  the map has no entry or an empty version; for the package \<open>kubernetes\<close> with a version
  found the package name is dropped (\<^verbatim>\<open>https://kure.sh/api/@<version>/...\<close>), and without one
  it is treated as any other package. Under the engine \<open>Node\<close> the path is
  \<^verbatim>\<open>@kure-api/<pkg with - for />\<close>, followed by \<^verbatim>\<open>/<path>\<close> when there is one, and no
  version is used.
\<close>

theorem api_import_path:
  "Imports_path h (Api pkg p) ctx =
     (case engine ctx of
        Deno \<Rightarrow>
          ''https://kure.sh/api/'' @
          (case map_of (dependencies ctx) pkg of
             None \<Rightarrow> pkg
           | Some dep \<Rightarrow>
               if dep_version dep = [] then pkg
               else (if pkg = ''kubernetes'' then [] else pkg) @ ''@'' @ dep_version dep) @
          ''/'' @ (case p of None \<Rightarrow> ''mod.ts'' | Some q \<Rightarrow> if q = [] then ''mod.ts'' else q)
      | Node \<Rightarrow>
          ''@kure-api/'' @ replace_slashes pkg @
          (case p of None \<Rightarrow> [] | Some q \<Rightarrow> if q = [] then [] else ''/'' @ q))"
  by (cases "engine ctx"; cases "map_of (dependencies ctx) pkg"; cases p)
     (simp_all add: remote_path_def)

text \<open>
  The claim as stated fails: under \<open>Node\<close> the path of an \<open>api\<close> import is the same
  whatever version the dependency map holds, and under \<open>Deno\<close> the path of \<open>kubernetes\<close>
  carries the version.
\<close>

theorem node_path_ignores_version:
  "map_option dep_version (map_of (dependencies (example_context [(''foo'', ''1.2'')] Node)) ''foo'')
     = Some ''1.2'' \<and>
   Imports_path example_host (Api ''foo'' None) (example_context [(''foo'', ''1.2'')] Node)
     = ''@kure-api/foo'' \<and>
   Imports_path example_host (Api ''foo'' None) (example_context [(''foo'', ''9.9'')] Node)
     = ''@kure-api/foo'' \<and>
   Imports_path example_host (Api ''kubernetes'' None)
     (example_context [(''kubernetes'', ''1.30'')] Deno) = ''https://kure.sh/api/@1.30/mod.ts''"
  by code_simp

section \<open>Failures while the generators are built\<close>

lemma traverse_fails:
  "x \<in> set xs \<Longrightarrow> f x = Inl e \<Longrightarrow> \<exists>e'. traverse f xs = Inl e' \<and> (\<exists>y \<in> set xs. f y = Inl e')"
  by (induction xs) (auto split: sum.splits)

lemma traverse_error:
  "traverse f xs = Inl e \<Longrightarrow> \<exists>x \<in> set xs. f x = Inl e"
  by (induction xs) (auto split: sum.splits)

lemma gen_errors:
  "gen_type t d = Inl e \<Longrightarrow> e = ResourceNotAllowed"
  "gen_object ps inh d = Inl e \<Longrightarrow> e = ResourceNotAllowed"
  "gen_types ts = Inl e \<Longrightarrow> e = ResourceNotAllowed"
  "gen_property p = Inl e \<Longrightarrow> e = ResourceNotAllowed"
  "gen_properties ps = Inl e \<Longrightarrow> e = ResourceNotAllowed"
  by (induction t d and ps inh d and ts and p and ps
      rule: gen_type_gen_object_gen_types_gen_property_gen_properties.induct)
     (auto simp: ebind_def Let_def split: sum.splits)

lemma gen_resource_error:
  "gen_resource def props scope = Inl e \<Longrightarrow>
   e = ResourceNotAllowed \<or> e = ExpectedMetadataReference (d_name def)"
  by (auto simp: gen_resource_def ebind_def split: option.splits if_splits sum.splits
           dest: gen_errors)

lemma gen_definition_error:
  "gen_definition def = Inl e \<Longrightarrow>
   e = ResourceNotAllowed \<or> e = ExpectedMetadataReference (d_name def)"
  by (auto simp: gen_definition_def gen_interface_def ebind_def
           split: option.splits sum.splits dest: gen_errors gen_resource_error)

lemma resourceBase_error:
  "resourceBase defs = Inl e \<Longrightarrow> \<exists>n. e = NoMetadataField n"
  by (auto simp: resourceBase_def split: option.splits)

lemma gen_resource_without_metadata:
  assumes "\<not> (\<exists>p \<in> set props. p_name p = ''metadata'' \<and> as_reference (p_value p) \<noteq> None)"
  shows "gen_resource def props scope = Inl (ExpectedMetadataReference (d_name def))"
proof (cases "find (\<lambda>p. p_name p = ''metadata'') props")
  case None
  then show ?thesis by (simp add: gen_resource_def)
next
  case (Some mp)
  then have "mp \<in> set props" "p_name mp = ''metadata''"
    by (auto simp: find_Some_iff)
  with assms have "as_reference (p_value mp) = None" by blast
  with Some show ?thesis by (simp add: gen_resource_def)
qed

text \<open>
  Claim C7. When a schema contains a resource definition none of whose properties is
  named \<open>metadata\<close> with a reference type as value, \<^verbatim>\<open>emitVersion\<close> returns no text: it
  throws while the generators are built, and the error is one of the three configuration
  errors of that stage (a resource without metadata field, a resource whose metadata
  property is not a reference, a resource type in a nested position).
\<close>

theorem resource_without_metadata_reference_fails:
  assumes "def \<in> set (definitions schema)"
    and "d_value def = ResourceType props scope"
    and "\<not> (\<exists>p \<in> set props. p_name p = ''metadata'' \<and> as_reference (p_value p) \<noteq> None)"
  shows "\<exists>e. emitVersion h schema en = Inl e \<and>
             ((\<exists>n. e = NoMetadataField n) \<or> (\<exists>n. e = ExpectedMetadataReference n) \<or>
              e = ResourceNotAllowed)"
proof (cases "resourceBase (definitions schema)")
  case (Inl e)
  then have "emitVersion h schema en = Inl e" by (simp add: emitVersion_def)
  with resourceBase_error[OF Inl] show ?thesis by blast
next
  case (Inr resource)
  have "gen_definition def = Inl (ExpectedMetadataReference (d_name def))"
    using gen_resource_without_metadata[OF assms(3)] assms(2) by (simp add: gen_definition_def)
  from traverse_fails[of def "definitions schema" gen_definition, OF assms(1) this]
  obtain e y where tr: "traverse gen_definition (definitions schema) = Inl e"
    and y: "gen_definition y = Inl e" by blast
  have "emitVersion h schema en = Inl e" using Inr tr by (simp add: emitVersion_def)
  with gen_definition_error[OF y] show ?thesis by blast
qed

theorem resource_without_metadata_reference_fails_witness:
  "\<exists>e. emitVersion example_host
          (example_schema []
             [\<lparr>description = None, deprecated = False, d_name = ''Widget'',
               d_value = ResourceType [Property ''metadata'' True (StringType None) no_meta,
                                       Property ''spec'' False UnknownType no_meta] ''namespace''\<rparr>])
          Deno = Inl e \<and>
       ((\<exists>n. e = NoMetadataField n) \<or> (\<exists>n. e = ExpectedMetadataReference n) \<or>
        e = ResourceNotAllowed)"
  by (rule resource_without_metadata_reference_fails
        [where def = "\<lparr>description = None, deprecated = False, d_name = ''Widget'',
               d_value = ResourceType [Property ''metadata'' True (StringType None) no_meta,
                                       Property ''spec'' False UnknownType no_meta] ''namespace''\<rparr>"
           and props = "[Property ''metadata'' True (StringType None) no_meta,
                         Property ''spec'' False UnknownType no_meta]"
           and scope = "''namespace''"])
     (simp_all add: example_schema_def)

section \<open>The import block\<close>

lemma set_insert_by [simp]: "set (insert_by cmp x ys) = insert x (set ys)"
  by (induction ys) auto

lemma sort_by_simps [simp]:
  "sort_by cmp [] = []"
  "sort_by cmp (x # xs) = insert_by cmp x (sort_by cmp xs)"
  by (simp_all add: sort_by_def)

lemma set_sort_by [simp]: "set (sort_by cmp xs) = set xs"
  by (induction xs) auto

lemma length_insert_by [simp]: "length (insert_by cmp x ys) = Suc (length ys)"
  by (induction ys) auto

lemma length_sort_by [simp]: "length (sort_by cmp xs) = length xs"
  by (induction xs) auto

lemma sort_by_Nil_iff [simp]: "sort_by cmp xs = [] \<longleftrightarrow> xs = []"
  using length_sort_by[of cmp xs] by (metis length_0_conv)

lemma distinct_insert_by: "distinct ys \<Longrightarrow> x \<notin> set ys \<Longrightarrow> distinct (insert_by cmp x ys)"
  by (induction ys) auto

lemma distinct_sort_by: "distinct xs \<Longrightarrow> distinct (sort_by cmp xs)"
  by (induction xs) (auto simp: distinct_insert_by)

lemma sorted_insert_by:
  assumes tot: "\<And>a b. cmp a b \<le> 0 \<or> cmp b a \<le> 0"
    and trans: "\<And>a b c. cmp a b \<le> 0 \<Longrightarrow> cmp b c \<le> 0 \<Longrightarrow> cmp a c \<le> 0"
  shows "sorted_wrt (\<lambda>a b. cmp a b \<le> 0) ys \<Longrightarrow> sorted_wrt (\<lambda>a b. cmp a b \<le> (0::int)) (insert_by cmp x ys)"
proof (induction ys)
  case Nil then show ?case by simp
next
  case (Cons y ys)
  show ?case
  proof (cases "cmp x y \<le> 0")
    case True
    then have "\<forall>z \<in> set ys. cmp x z \<le> 0" using Cons.prems trans by auto
    with True Cons.prems show ?thesis by simp
  next
    case False
    then have "cmp y x \<le> 0" using tot by blast
    with False Cons show ?thesis by auto
  qed
qed

lemma sorted_sort_by:
  assumes tot: "\<And>a b. cmp a b \<le> 0 \<or> cmp b a \<le> 0"
    and trans: "\<And>a b c. cmp a b \<le> 0 \<Longrightarrow> cmp b c \<le> 0 \<Longrightarrow> cmp a c \<le> 0"
  shows "sorted_wrt (\<lambda>a b. cmp a b \<le> (0::int)) (sort_by cmp xs)"
proof (induction xs)
  case Nil then show ?case by simp
next
  case (Cons x xs)
  from sorted_insert_by[of cmp, OF tot trans Cons] show ?case by simp
qed

lemma traverse_length: "traverse f xs = Inr ys \<Longrightarrow> length ys = length xs"
  by (induction xs arbitrary: ys) (auto split: sum.splits)

lemma render_groups_eq:
  "render_groups h ctx imps =
     filter (\<lambda>g. g \<noteq> [])
       [sort_by (\<lambda>a b. localeCompare h (paths_get (render_paths h ctx imps) a)
                                      (paths_get (render_paths h ctx imps) b)) (render_remote imps),
        sort_by (\<lambda>a b. localeCompare h (paths_get (render_paths h ctx imps) a)
                                      (paths_get (render_paths h ctx imps) b)) (render_local imps)]"
  by (simp add: render_groups_def)

lemma Imports_render_text:
  assumes "Imports_render h m ctx = Inr out"
    and R: "R = sort_by (\<lambda>a b. localeCompare h (paths_get (render_paths h ctx (imports' m)) a)
                 (paths_get (render_paths h ctx (imports' m)) b)) (render_remote (imports' m))"
    and L: "L = sort_by (\<lambda>a b. localeCompare h (paths_get (render_paths h ctx (imports' m)) a)
                 (paths_get (render_paths h ctx (imports' m)) b)) (render_local (imports' m))"
  shows "\<exists>rs ls. traverse (renderImport h ctx m) R = Inr rs \<and>
                 traverse (renderImport h ctx m) L = Inr ls \<and>
                 out = join [CHR 0x0A, CHR 0x0A]
                         (map (join [CHR 0x0A]) (filter (\<lambda>g. g \<noteq> []) [rs, ls]))"
proof -
  have g: "render_groups h ctx (imports' m) = filter (\<lambda>g. g \<noteq> []) [R, L]"
    unfolding R L by (rule render_groups_eq)
  show ?thesis
  proof (cases "R = []"; cases "L = []")
    assume "R = []" "L = []"
    with assms(1) g show ?thesis by (simp add: Imports_render_def)
  next
    assume r: "R = []" and l: "L \<noteq> []"
    with assms(1) g obtain ls where ls: "traverse (renderImport h ctx m) L = Inr ls"
      and out: "out = join [CHR 0x0A] ls"
      by (auto simp: Imports_render_def renderGroup_def ebind_def split: sum.splits)
    from traverse_length[OF ls] l have "ls \<noteq> []" by auto
    with r ls out show ?thesis by simp
  next
    assume r: "R \<noteq> []" and l: "L = []"
    with assms(1) g obtain rs where rs: "traverse (renderImport h ctx m) R = Inr rs"
      and out: "out = join [CHR 0x0A] rs"
      by (auto simp: Imports_render_def renderGroup_def ebind_def split: sum.splits)
    from traverse_length[OF rs] r have "rs \<noteq> []" by auto
    with l rs out show ?thesis by simp
  next
    assume r: "R \<noteq> []" and l: "L \<noteq> []"
    with assms(1) g obtain rs ls where rs: "traverse (renderImport h ctx m) R = Inr rs"
      and ls: "traverse (renderImport h ctx m) L = Inr ls"
      and out: "out = join [CHR 0x0A] rs @ [CHR 0x0A, CHR 0x0A] @ join [CHR 0x0A] ls"
      by (auto simp: Imports_render_def renderGroup_def ebind_def split: sum.splits)
    from traverse_length[OF rs] r have "rs \<noteq> []" by auto
    moreover from traverse_length[OF ls] l have "ls \<noteq> []" by auto
    ultimately show ?thesis using rs ls out by simp
  qed
qed

lemma renderImport_text:
  assumes "renderImport h ctx m urn = Inr s"
  shows "if list_all type (sorted_members h (imports' m) urn)
         then \<exists>ts. traverse (Import_render True (names m)) (sorted_members h (imports' m) urn) = Inr ts \<and>
                s = ''import type { '' @ join '', '' ts @ '' }'' @ '' from '' @
                    JSON_stringify (paths_get (render_paths h ctx (imports' m)) urn) @ '';''
         else \<exists>ts. traverse (Import_render False (names m)) (sorted_members h (imports' m) urn) = Inr ts \<and>
                s = ''import { '' @ join '', '' ts @ '' }'' @ '' from '' @
                    JSON_stringify (paths_get (render_paths h ctx (imports' m)) urn) @ '';''"
  using assms by (auto simp: renderImport_def ebind_def Let_def split: sum.splits if_splits)

lemma Import_render_text:
  assumes "Import_render inTypeImport ns imp = Inr t"
  shows "\<exists>nm. Import_token imp ns = Inr nm \<and> (inTypeImport \<longrightarrow> type imp) \<and>
              t = (if type imp \<and> \<not> inTypeImport then ''type '' else []) @
                  (if nm \<noteq> member imp then member imp @ '' as '' @ nm else nm)"
  using assms by (auto simp: Import_render_def ebind_def split: sum.splits if_splits)

text \<open>
  Claim C6 (amended). The order is the one of \<^verbatim>\<open>localeCompare\<close>, the collation of the
  host, not the order of the code units. For a host whose \<^verbatim>\<open>localeCompare\<close> is a total
  preorder, a rendered import block is the statements of the remote sources, sorted by
  their paths in that order, then the statements of the local sources, sorted by their
  paths in that order; the statements of a bucket are joined by a line feed and the
  buckets that are not empty by an empty line. The members of a statement are sorted by
  member name in that order. The statement is an \<^verbatim>\<open>import type\<close> when every member is
  type-only, and otherwise an \<^verbatim>\<open>import\<close> in which each member that is type-only carries
  the prefix \<^verbatim>\<open>type\<close>.
\<close>

theorem import_block_layout:
  assumes tot: "\<forall>a b. localeCompare h a b \<le> 0 \<or> localeCompare h b a \<le> 0"
    and trans: "\<forall>a b c. localeCompare h a b \<le> 0 \<longrightarrow> localeCompare h b c \<le> 0 \<longrightarrow>
                  localeCompare h a c \<le> 0"
    and ok: "Imports_render h m ctx = Inr out"
    and P: "P = (\<lambda>a b. localeCompare h (paths_get (render_paths h ctx (imports' m)) a)
                                       (paths_get (render_paths h ctx (imports' m)) b))"
  shows "(\<exists>rs ls.
            traverse (renderImport h ctx m) (sort_by P (render_remote (imports' m))) = Inr rs \<and>
            traverse (renderImport h ctx m) (sort_by P (render_local (imports' m))) = Inr ls \<and>
            out = join [CHR 0x0A, CHR 0x0A]
                    (map (join [CHR 0x0A]) (filter (\<lambda>g. g \<noteq> []) [rs, ls]))) \<and>
         sorted_wrt (\<lambda>a b. P a b \<le> 0) (sort_by P (render_remote (imports' m))) \<and>
         sorted_wrt (\<lambda>a b. P a b \<le> 0) (sort_by P (render_local (imports' m))) \<and>
         set (sort_by P (render_remote (imports' m))) = set (render_remote (imports' m)) \<and>
         set (sort_by P (render_local (imports' m))) = set (render_local (imports' m)) \<and>
         (\<forall>urn s. renderImport h ctx m urn = Inr s \<longrightarrow>
            sorted_wrt (\<lambda>a b. localeCompare h (member a) (member b) \<le> 0)
              (sorted_members h (imports' m) urn) \<and>
            set (sorted_members h (imports' m) urn) = set (modules_get (imports' m) urn) \<and>
            (\<exists>ts. traverse (Import_render (list_all type (sorted_members h (imports' m) urn)) (names m))
                     (sorted_members h (imports' m) urn) = Inr ts \<and>
                   s = (if list_all type (sorted_members h (imports' m) urn)
                        then ''import type { '' else ''import { '') @
                       join '', '' ts @ '' } from '' @
                       JSON_stringify (paths_get (render_paths h ctx (imports' m)) urn) @ '';'')) \<and>
         (\<forall>b imp t. Import_render b (names m) imp = Inr t \<longrightarrow>
            (\<exists>nm. Import_token imp (names m) = Inr nm \<and>
                  t = (if type imp \<and> \<not> b then ''type '' else []) @
                      (if nm \<noteq> member imp then member imp @ '' as '' @ nm else nm)))"
proof -
  have totP: "\<And>a b. P a b \<le> 0 \<or> P b a \<le> 0" using tot by (simp add: P)
  have transP: "\<And>a b c. P a b \<le> 0 \<Longrightarrow> P b c \<le> 0 \<Longrightarrow> P a c \<le> 0"
    using trans unfolding P by blast
  have totM: "\<And>a b :: Import. localeCompare h (member a) (member b) \<le> 0 \<or>
                 localeCompare h (member b) (member a) \<le> 0" using tot by blast
  have transM: "\<And>a b c :: Import. localeCompare h (member a) (member b) \<le> 0 \<Longrightarrow>
                 localeCompare h (member b) (member c) \<le> 0 \<Longrightarrow>
                 localeCompare h (member a) (member c) \<le> 0" using trans by blast
  have c1: "\<exists>rs ls.
            traverse (renderImport h ctx m) (sort_by P (render_remote (imports' m))) = Inr rs \<and>
            traverse (renderImport h ctx m) (sort_by P (render_local (imports' m))) = Inr ls \<and>
            out = join [CHR 0x0A, CHR 0x0A]
                    (map (join [CHR 0x0A]) (filter (\<lambda>g. g \<noteq> []) [rs, ls]))"
    using Imports_render_text[OF ok] unfolding P by blast
  have c2: "sorted_wrt (\<lambda>a b. P a b \<le> 0) (sort_by P xs)" for xs
    using totP transP by (rule sorted_sort_by)
  have c3: "sorted_wrt (\<lambda>a b. localeCompare h (member a) (member b) \<le> 0)
              (sorted_members h (imports' m) urn)" for urn
    unfolding sorted_members_def
    using sorted_sort_by[of "\<lambda>a b. localeCompare h (member a) (member b)", OF totM transM] .
  have c4: "\<exists>ts. traverse (Import_render (list_all type (sorted_members h (imports' m) urn)) (names m))
                     (sorted_members h (imports' m) urn) = Inr ts \<and>
                   s = (if list_all type (sorted_members h (imports' m) urn)
                        then ''import type { '' else ''import { '') @
                       join '', '' ts @ '' } from '' @
                       JSON_stringify (paths_get (render_paths h ctx (imports' m)) urn) @ '';''"
    if "renderImport h ctx m urn = Inr s" for urn s
    using renderImport_text[OF that]
    by (cases "list_all type (sorted_members h (imports' m) urn)") auto
  have c5: "\<exists>nm. Import_token imp (names m) = Inr nm \<and>
                  t = (if type imp \<and> \<not> b then ''type '' else []) @
                      (if nm \<noteq> member imp then member imp @ '' as '' @ nm else nm)"
    if "Import_render b (names m) imp = Inr t" for b imp t
    using Import_render_text[OF that] by blast
  have c6: "set (sorted_members h (imports' m) urn) = set (modules_get (imports' m) urn)" for urn
    by (simp add: sorted_members_def)
  show ?thesis
    using c1 c2 c3 c4 c5 c6 by (intro conjI allI impI) simp_all
qed

lemma collation_compare_le:
  "collation_compare a b \<le> 0 \<longleftrightarrow>
     map primary_rank a < map primary_rank b \<or>
     (map primary_rank a = map primary_rank b \<and> map case_rank a \<le> map case_rank b)"
  by (auto simp: collation_compare_def)

lemma collation_compare_total:
  "collation_compare a b \<le> 0 \<or> collation_compare b a \<le> 0"
  unfolding collation_compare_le by auto

lemma collation_compare_trans:
  "collation_compare a b \<le> 0 \<Longrightarrow> collation_compare b c \<le> 0 \<Longrightarrow> collation_compare a c \<le> 0"
  unfolding collation_compare_le by auto

theorem import_block_layout_witness:
  "Imports_render example_host example_single_imports
     ((example_context [] Deno)\<lparr>module := example_single_imports\<rparr>)
   = Inr (text_lines
       [''import { factory } from '' @ quoted ''https://kure.sh/lib/schema@0.1/mod.ts'' @ '';'',
        [],
        ''import type { ObjectMeta } from '' @ quoted ''./meta/v1.ts'' @ '';''])
   \<and>
   (\<exists>rs ls.
      traverse (renderImport example_host
                  ((example_context [] Deno)\<lparr>module := example_single_imports\<rparr>)
                  example_single_imports)
        (sort_by (\<lambda>a b. localeCompare example_host
                    (paths_get (render_paths example_host
                       ((example_context [] Deno)\<lparr>module := example_single_imports\<rparr>)
                       (imports' example_single_imports)) a)
                    (paths_get (render_paths example_host
                       ((example_context [] Deno)\<lparr>module := example_single_imports\<rparr>)
                       (imports' example_single_imports)) b))
           (render_remote (imports' example_single_imports))) = Inr rs \<and>
      traverse (renderImport example_host
                  ((example_context [] Deno)\<lparr>module := example_single_imports\<rparr>)
                  example_single_imports)
        (sort_by (\<lambda>a b. localeCompare example_host
                    (paths_get (render_paths example_host
                       ((example_context [] Deno)\<lparr>module := example_single_imports\<rparr>)
                       (imports' example_single_imports)) a)
                    (paths_get (render_paths example_host
                       ((example_context [] Deno)\<lparr>module := example_single_imports\<rparr>)
                       (imports' example_single_imports)) b))
           (render_local (imports' example_single_imports))) = Inr ls \<and>
      text_lines
       [''import { factory } from '' @ quoted ''https://kure.sh/lib/schema@0.1/mod.ts'' @ '';'',
        [],
        ''import type { ObjectMeta } from '' @ quoted ''./meta/v1.ts'' @ '';'']
      = join [CHR 0x0A, CHR 0x0A] (map (join [CHR 0x0A]) (filter (\<lambda>g. g \<noteq> []) [rs, ls])))"
proof -
  have tot: "\<forall>a b. localeCompare example_host a b \<le> 0 \<or> localeCompare example_host b a \<le> 0"
    using collation_compare_total by (simp add: example_host_def)
  have trans: "\<forall>a b c. localeCompare example_host a b \<le> 0 \<longrightarrow>
                 localeCompare example_host b c \<le> 0 \<longrightarrow> localeCompare example_host a c \<le> 0"
    using collation_compare_trans by (auto simp: example_host_def)
  have ok: "Imports_render example_host example_single_imports
     ((example_context [] Deno)\<lparr>module := example_single_imports\<rparr>)
   = Inr (text_lines
       [''import { factory } from '' @ quoted ''https://kure.sh/lib/schema@0.1/mod.ts'' @ '';'',
        [],
        ''import type { ObjectMeta } from '' @ quoted ''./meta/v1.ts'' @ '';''])"
    by code_simp
  from import_block_layout[OF tot trans ok refl] ok show ?thesis by blast
qed

text \<open>
  The claim as stated fails: the members \<open>factory\<close> and \<open>Resource\<close> of one source are
  rendered in the order of the collation, \<open>factory\<close> first, while the lexicographic order
  of the code units puts \<open>Resource\<close> first.
\<close>

theorem members_follow_collation_not_code_units:
  "Imports_render example_host example_imports
     ((example_context [] Deno)\<lparr>module := example_imports\<rparr>)
   = Inr (text_lines
       [''import { factory, type Resource } from '' @ quoted ''https://kure.sh/lib/schema@0.1/mod.ts'' @ '';'',
        [],
        ''import type { ObjectMeta } from '' @ quoted ''./meta/v1.ts'' @ '';''])
   \<and> map (of_char :: char \<Rightarrow> nat) ''Resource'' < map of_char ''factory''
   \<and> map member (sorted_members example_host (imports' example_imports) ''kure:lib:schema'')
       = [''factory'', ''Resource'']"
  by code_simp

section \<open>Declarations and the synthetic names\<close>












































lemma redeclared_APIVersion_error:
  "emitVersion example_host
          (example_schema []
             [\<lparr>description = None, deprecated = False, d_name = ''APIVersion'',
               d_value = StringType None\<rparr>]) Deno = Inl (Duplicate Declaration ''APIVersion'')"
  by code_simp

end
